theory Spec2Isabelle
  imports Main "HOL-Library.Sublist"
begin

section \<open>Values, objects and the store\<close>

text \<open>
  The module \<^verbatim>\<open>logged_config.py\<close> defines three container classes,
  \<^verbatim>\<open>LoggedConfiguration\<close> (a \<^verbatim>\<open>collections.Mapping\<close>),
  \<^verbatim>\<open>LoggedList\<close> (a subclass of \<^verbatim>\<open>list\<close>) and
  \<^verbatim>\<open>LoggedSet\<close> (a subclass of \<^verbatim>\<open>set\<close>), and the two
  functions \<^verbatim>\<open>wrap_logged_config_value\<close> and \<^verbatim>\<open>_unwrap\<close>.

  Instances of the three classes are mutable and can be reached through several
  containers at once, so they live in a store and are referred to by address
  (\<open>VRef\<close>). Plain data handed in by a caller is a value: \<open>None\<close>, integers
  (Python's \<^verbatim>\<open>bool\<close> is a subclass of \<^verbatim>\<open>int\<close>, with
  \<^verbatim>\<open>True == 1\<close>), strings, and plain lists, tuples, sets and dicts.
  A logger is identified by its channel name, as \<^verbatim>\<open>logging.getLogger\<close>
  returns one logger per name. Dict keys are strings. A dict is the list of its
  items in insertion order; a set is the list of its distinct elements.
\<close>

type_synonym addr = nat

datatype pyval =
    VNone
  | VInt int
  | VStr string
  | VLogger string
  | VList "pyval list"
  | VTuple "pyval list"
  | VSet "pyval list"
  | VDict "(string \<times> pyval) list"
  | VRef addr

text \<open>
  The instance attributes of each class, in the order \<^verbatim>\<open>_name\<close>, contents,
  \<^verbatim>\<open>_logger\<close>. The contents of a \<open>LoggedConfiguration\<close> is its
  \<^verbatim>\<open>_data\<close> dict; a \<open>LoggedList\<close> and a \<open>LoggedSet\<close> are their own
  contents (they inherit from \<^verbatim>\<open>list\<close> and \<^verbatim>\<open>set\<close>).
\<close>

datatype obj =
    LoggedConfiguration string "(string \<times> pyval) list" string
  | LoggedList string "pyval list" string
  | LoggedSet string "pyval list" string

datatype error = KeyError | AttributeError | IndexError | ValueError | TypeError | OverflowError

text \<open>
  What a call leaves behind: \<open>Info channel template args\<close> is one call of
  \<^verbatim>\<open>logger.info(template, *args)\<close> on the logger of that channel,
  \<open>Alloc a\<close> the creation of the object at \<open>a\<close>, \<open>Write a\<close> a change of
  the contents or of an attribute of the existing object at \<open>a\<close>.
\<close>

datatype event = Info string string "pyval list" | Alloc addr | Write addr

record state =
  heap :: "obj list"
  trace :: "event list"

text \<open>
  A call returns a value, raises an exception, or has not finished within the
  fuel it was given. Fuel bounds the number of nested stored containers a
  traversal may enter; it is not consumed by anything else.
\<close>

datatype 'a outcome = OutOfFuel | Raise error state | Return 'a state

definition and_then :: "'a outcome \<Rightarrow> ('a \<Rightarrow> state \<Rightarrow> 'b outcome) \<Rightarrow> 'b outcome" where
  "and_then r f = (case r of OutOfFuel \<Rightarrow> OutOfFuel | Raise e st \<Rightarrow> Raise e st | Return x st \<Rightarrow> f x st)"

definition lookup :: "state \<Rightarrow> addr \<Rightarrow> obj option" where
  "lookup st a = (if a < length (heap st) then Some (heap st ! a) else None)"

definition alloc :: "obj \<Rightarrow> state \<Rightarrow> pyval outcome" where
  "alloc ob st =
     Return (VRef (length (heap st)))
       (st\<lparr>heap := heap st @ [ob], trace := trace st @ [Alloc (length (heap st))]\<rparr>)"

definition store :: "addr \<Rightarrow> obj \<Rightarrow> state \<Rightarrow> state" where
  "store a ob st = st\<lparr>heap := (heap st)[a := ob], trace := trace st @ [Write a]\<rparr>"

definition info :: "string \<Rightarrow> string \<Rightarrow> pyval list \<Rightarrow> state \<Rightarrow> state" where
  "info channel template args st = st\<lparr>trace := trace st @ [Info channel template args]\<rparr>"

subsection \<open>The built-in containers\<close>

text \<open>
  Only hashable values can be elements of a set. Lists, sets and dicts are not
  hashable; a tuple is when its elements are. None of the three logged classes
  is: \<open>LoggedList\<close> and \<open>LoggedSet\<close> inherit \<^verbatim>\<open>__hash__ = None\<close> from
  \<^verbatim>\<open>list\<close> and \<^verbatim>\<open>set\<close>, and \<^verbatim>\<open>Mapping\<close> defines
  \<^verbatim>\<open>__eq__\<close> without \<^verbatim>\<open>__hash__\<close>.
\<close>

fun hashable :: "pyval \<Rightarrow> bool" where
  "hashable VNone = True"
| "hashable (VInt _) = True"
| "hashable (VStr _) = True"
| "hashable (VLogger _) = True"
| "hashable (VTuple xs) = list_all hashable xs"
| "hashable (VList _) = False"
| "hashable (VSet _) = False"
| "hashable (VDict _) = False"
| "hashable (VRef _) = False"

definition set_add :: "pyval \<Rightarrow> pyval list \<Rightarrow> pyval list" where
  "set_add x xs = (if x \<in> set xs then xs else xs @ [x])"

definition dict_set :: "string \<Rightarrow> pyval \<Rightarrow> (string \<times> pyval) list \<Rightarrow> (string \<times> pyval) list" where
  "dict_set k v kvs =
     (if k \<in> fst ` set kvs then map (\<lambda>p. if fst p = k then (k, v) else p) kvs else kvs @ [(k, v)])"

definition dict_del :: "string \<Rightarrow> (string \<times> pyval) list \<Rightarrow> (string \<times> pyval) list" where
  "dict_del k kvs = filter (\<lambda>p. fst p \<noteq> k) kvs"

section \<open>Wrapping and the constructors\<close>

text \<open>
  \<^verbatim>\<open>wrap_logged_config_value\<close> and the three constructors call each other.
  The constructors are written over the wrapping function they apply to their
  elements (\<open>w\<close>); \<open>wrap_logged_config_value\<close> then closes the recursion, one
  unit of fuel for each level of nesting it enters.

  Each constructor receives the elements its \<^verbatim>\<open>data\<close> argument yields.
  The object under construction is reachable by nobody until the constructor
  returns, so it enters the store when it is complete. \<open>LoggedSet_elements\<close> is
  the loop of \<^verbatim>\<open>set.__init__\<close> over the generator: each element is wrapped,
  hashed and inserted before the next one is wrapped. \<open>LoggedConfiguration_items\<close>
  is the dict comprehension of \<^verbatim>\<open>LoggedConfiguration.__init__\<close>.
\<close>

type_synonym wrapper = "string \<Rightarrow> pyval \<Rightarrow> state \<Rightarrow> pyval outcome"

fun LoggedConfiguration_items ::
  "wrapper \<Rightarrow> string \<Rightarrow> (string \<times> pyval) list \<Rightarrow> (string \<times> pyval) list \<Rightarrow> state
     \<Rightarrow> (string \<times> pyval) list outcome" where
  "LoggedConfiguration_items w name [] acc st = Return acc st"
| "LoggedConfiguration_items w name (kv # kvs) acc st =
     and_then (w (name @ ''.'' @ fst kv) (snd kv) st)
       (\<lambda>v st'. LoggedConfiguration_items w name kvs (dict_set (fst kv) v acc) st')"

definition LoggedConfiguration_new :: "wrapper \<Rightarrow> string \<Rightarrow> (string \<times> pyval) list \<Rightarrow> state \<Rightarrow> pyval outcome" where
  "LoggedConfiguration_new w name kvs st =
     and_then (LoggedConfiguration_items w name kvs [] st)
       (\<lambda>data st'. alloc (LoggedConfiguration name data name) st')"

fun LoggedList_elements :: "wrapper \<Rightarrow> string \<Rightarrow> pyval list \<Rightarrow> state \<Rightarrow> pyval list outcome" where
  "LoggedList_elements w name [] st = Return [] st"
| "LoggedList_elements w name (x # xs) st =
     and_then (w (name @ ''[...]'') x st)
       (\<lambda>v st'. and_then (LoggedList_elements w name xs st')
          (\<lambda>vs st''. Return (v # vs) st''))"

definition LoggedList_new :: "wrapper \<Rightarrow> string \<Rightarrow> pyval list \<Rightarrow> state \<Rightarrow> pyval outcome" where
  "LoggedList_new w name xs st =
     and_then (LoggedList_elements w name xs st)
       (\<lambda>ys st'. alloc (LoggedList name ys name) st')"

fun LoggedSet_elements :: "wrapper \<Rightarrow> string \<Rightarrow> pyval list \<Rightarrow> pyval list \<Rightarrow> state \<Rightarrow> pyval list outcome" where
  "LoggedSet_elements w name [] acc st = Return acc st"
| "LoggedSet_elements w name (x # xs) acc st =
     and_then (w (name @ ''[...]'') x st)
       (\<lambda>v st'. if hashable v then LoggedSet_elements w name xs (set_add v acc) st'
                 else Raise TypeError st')"

definition LoggedSet_new :: "wrapper \<Rightarrow> string \<Rightarrow> pyval list \<Rightarrow> state \<Rightarrow> pyval outcome" where
  "LoggedSet_new w name xs st =
     and_then (LoggedSet_elements w name xs [] st)
       (\<lambda>ys st'. alloc (LoggedSet name ys name) st')"

text \<open>
  The body of \<^verbatim>\<open>wrap_logged_config_value\<close>. It tests
  \<^verbatim>\<open>isinstance(value, (list, tuple))\<close>, then \<^verbatim>\<open>set\<close>, then
  \<^verbatim>\<open>dict\<close>. A stored \<open>LoggedList\<close> is a \<^verbatim>\<open>list\<close> and a stored
  \<open>LoggedSet\<close> is a \<^verbatim>\<open>set\<close>, so both are wrapped again, into a new
  object; a stored \<open>LoggedConfiguration\<close> is not a \<^verbatim>\<open>dict\<close> and is
  returned as it is, like every other value.
\<close>

definition wrap_body :: "wrapper \<Rightarrow> wrapper" where
  "wrap_body w config_name val st =
     (case val of
        VList xs \<Rightarrow> LoggedList_new w config_name xs st
      | VTuple xs \<Rightarrow> LoggedList_new w config_name xs st
      | VSet xs \<Rightarrow> LoggedSet_new w config_name xs st
      | VDict kvs \<Rightarrow> LoggedConfiguration_new w config_name kvs st
      | VRef a \<Rightarrow>
          (case lookup st a of
             Some (LoggedList _ xs _) \<Rightarrow> LoggedList_new w config_name xs st
           | Some (LoggedSet _ xs _) \<Rightarrow> LoggedSet_new w config_name xs st
           | _ \<Rightarrow> Return val st)
      | _ \<Rightarrow> Return val st)"

primrec wrap_logged_config_value :: "nat \<Rightarrow> wrapper" where
  "wrap_logged_config_value 0 = (\<lambda>config_name val st. OutOfFuel)"
| "wrap_logged_config_value (Suc n) = wrap_body (wrap_logged_config_value n)"

text \<open>The constructors as the module's callers see them.\<close>

definition LoggedConfiguration_init :: "nat \<Rightarrow> string \<Rightarrow> (string \<times> pyval) list \<Rightarrow> state \<Rightarrow> pyval outcome" where
  "LoggedConfiguration_init n = LoggedConfiguration_new (wrap_logged_config_value n)"

definition LoggedList_init :: "nat \<Rightarrow> string \<Rightarrow> pyval list \<Rightarrow> state \<Rightarrow> pyval outcome" where
  "LoggedList_init n = LoggedList_new (wrap_logged_config_value n)"

definition LoggedSet_init :: "nat \<Rightarrow> string \<Rightarrow> pyval list \<Rightarrow> state \<Rightarrow> pyval outcome" where
  "LoggedSet_init n = LoggedSet_new (wrap_logged_config_value n)"

section \<open>Unwrapping\<close>

text \<open>
  \<^verbatim>\<open>_unwrap(value, replace_sets_with_lists)\<close>. Its three comprehensions
  build a dict, a list and a set; the set comprehension hashes every element.
  A value that is an instance of none of the three classes is returned as it is.
\<close>

type_synonym unwrapper = "pyval \<Rightarrow> state \<Rightarrow> pyval outcome"

fun unwrap_items ::
  "unwrapper \<Rightarrow> (string \<times> pyval) list \<Rightarrow> (string \<times> pyval) list \<Rightarrow> state \<Rightarrow> (string \<times> pyval) list outcome" where
  "unwrap_items u [] acc st = Return acc st"
| "unwrap_items u (kv # kvs) acc st =
     and_then (u (snd kv) st) (\<lambda>v st'. unwrap_items u kvs (dict_set (fst kv) v acc) st')"

fun unwrap_elements :: "unwrapper \<Rightarrow> pyval list \<Rightarrow> state \<Rightarrow> pyval list outcome" where
  "unwrap_elements u [] st = Return [] st"
| "unwrap_elements u (x # xs) st =
     and_then (u x st)
       (\<lambda>v st'. and_then (unwrap_elements u xs st') (\<lambda>vs st''. Return (v # vs) st''))"

fun unwrap_set_elements :: "unwrapper \<Rightarrow> pyval list \<Rightarrow> pyval list \<Rightarrow> state \<Rightarrow> pyval list outcome" where
  "unwrap_set_elements u [] acc st = Return acc st"
| "unwrap_set_elements u (x # xs) acc st =
     and_then (u x st)
       (\<lambda>v st'. if hashable v then unwrap_set_elements u xs (set_add v acc) st'
                 else Raise TypeError st')"

definition unwrap_body :: "unwrapper \<Rightarrow> bool \<Rightarrow> unwrapper" where
  "unwrap_body u replace_sets_with_lists val st =
     (case val of
        VRef a \<Rightarrow>
          (case lookup st a of
             Some (LoggedConfiguration _ kvs _) \<Rightarrow>
               and_then (unwrap_items u kvs [] st) (\<lambda>d st'. Return (VDict d) st')
           | Some (LoggedList _ xs _) \<Rightarrow>
               and_then (unwrap_elements u xs st) (\<lambda>ys st'. Return (VList ys) st')
           | Some (LoggedSet _ xs _) \<Rightarrow>
               if replace_sets_with_lists
               then and_then (unwrap_elements u xs st) (\<lambda>ys st'. Return (VList ys) st')
               else and_then (unwrap_set_elements u xs [] st) (\<lambda>ys st'. Return (VSet ys) st')
           | None \<Rightarrow> Return val st)
      | _ \<Rightarrow> Return val st)"

primrec unwrap :: "nat \<Rightarrow> bool \<Rightarrow> unwrapper" where
  "unwrap 0 replace_sets_with_lists = (\<lambda>val st. OutOfFuel)"
| "unwrap (Suc n) replace_sets_with_lists =
     unwrap_body (unwrap n replace_sets_with_lists) replace_sets_with_lists"

section \<open>LoggedConfiguration\<close>

text \<open>
  The templates of the log messages, as the methods pass them to
  \<^verbatim>\<open>self._logger.info\<close>; the first argument of each call is
  \<^verbatim>\<open>self._name\<close>.
\<close>

definition Setting :: string where
  \<open>Setting = ''Configuration "%s": setting %r to %r''\<close>

definition Removing :: string where
  \<open>Removing = ''Configuration "%s": removing %r''\<close>

definition Appending :: string where
  \<open>Appending = ''Configuration "%s": appending %r''\<close>

definition Inserting :: string where
  \<open>Inserting = ''Configuration "%s": inserting %r at index %s''\<close>

definition PoppingIndex :: string where
  \<open>PoppingIndex = ''Configuration "%s": popping from index %s''\<close>

definition Clearing :: string where
  \<open>Clearing = ''Configuration "%s": clearing all values''\<close>

definition Extending :: string where
  \<open>Extending = ''Configuration "%s": extending with %r''\<close>

definition Adding :: string where
  \<open>Adding = ''Configuration "%s": adding %r''\<close>

definition DifferenceUpdate :: string where
  \<open>DifferenceUpdate = ''Configuration "%s": difference-update with %r''\<close>

definition Discarding :: string where
  \<open>Discarding = ''Configuration "%s": discarding %r (if present)''\<close>

definition Popping :: string where
  \<open>Popping = ''Configuration "%s": popping %r''\<close>

definition SymmetricDifferenceUpdate :: string where
  \<open>SymmetricDifferenceUpdate = ''Configuration "%s": symmetric-difference-update with %r''\<close>

definition Updating :: string where
  \<open>Updating = ''Configuration "%s": updating with %r''\<close>

text \<open>
  A method is looked up on the class of its receiver: called on an address that
  holds no instance of the class, it is an \<open>AttributeError\<close>.
\<close>

definition LoggedConfiguration_getitem :: "addr \<Rightarrow> string \<Rightarrow> state \<Rightarrow> pyval outcome" where
  "LoggedConfiguration_getitem self key st =
     (case lookup st self of
        Some (LoggedConfiguration name data logger) \<Rightarrow>
          (case map_of data key of Some v \<Rightarrow> Return v st | None \<Rightarrow> Raise KeyError st)
      | _ \<Rightarrow> Raise AttributeError st)"

text \<open>
  The wrapping between the log call and the assignment only creates objects, so
  \<^verbatim>\<open>self._data\<close> is still the dict read at the start.
\<close>

definition LoggedConfiguration_setitem :: "nat \<Rightarrow> addr \<Rightarrow> string \<Rightarrow> pyval \<Rightarrow> state \<Rightarrow> pyval outcome" where
  "LoggedConfiguration_setitem n self key val st =
     (case lookup st self of
        Some (LoggedConfiguration name data logger) \<Rightarrow>
          and_then (wrap_logged_config_value n (name @ ''.'' @ key) val
                      (info logger Setting [VStr name, VStr key, val] st))
            (\<lambda>v st'. Return VNone (store self (LoggedConfiguration name (dict_set key v data) logger) st'))
      | _ \<Rightarrow> Raise AttributeError st)"

definition LoggedConfiguration_delitem :: "addr \<Rightarrow> string \<Rightarrow> state \<Rightarrow> pyval outcome" where
  "LoggedConfiguration_delitem self key st =
     (case lookup st self of
        Some (LoggedConfiguration name data logger) \<Rightarrow>
          (let st' = info logger Removing [VStr name, VStr key] st in
           if key \<in> fst ` set data
           then Return VNone (store self (LoggedConfiguration name (dict_del key data) logger) st')
           else Raise KeyError st')
      | _ \<Rightarrow> Raise AttributeError st)"

definition LoggedConfiguration_contains :: "addr \<Rightarrow> string \<Rightarrow> state \<Rightarrow> bool outcome" where
  "LoggedConfiguration_contains self item st =
     (case lookup st self of
        Some (LoggedConfiguration name data logger) \<Rightarrow> Return (item \<in> fst ` set data) st
      | _ \<Rightarrow> Raise AttributeError st)"

definition LoggedConfiguration_getattr :: "addr \<Rightarrow> string \<Rightarrow> state \<Rightarrow> pyval outcome" where
  "LoggedConfiguration_getattr self attr st =
     (case lookup st self of
        Some (LoggedConfiguration name data logger) \<Rightarrow>
          (case map_of data attr of Some v \<Rightarrow> Return v st | None \<Rightarrow> Raise AttributeError st)
      | _ \<Rightarrow> Raise AttributeError st)"

definition LoggedConfiguration_len :: "addr \<Rightarrow> state \<Rightarrow> nat outcome" where
  "LoggedConfiguration_len self st =
     (case lookup st self of
        Some (LoggedConfiguration name data logger) \<Rightarrow> Return (length data) st
      | _ \<Rightarrow> Raise AttributeError st)"

definition LoggedConfiguration_iter :: "addr \<Rightarrow> state \<Rightarrow> string list outcome" where
  "LoggedConfiguration_iter self st =
     (case lookup st self of
        Some (LoggedConfiguration name data logger) \<Rightarrow> Return (map fst data) st
      | _ \<Rightarrow> Raise AttributeError st)"

definition to_dict :: "nat \<Rightarrow> addr \<Rightarrow> state \<Rightarrow> pyval outcome" where
  "to_dict n self st = unwrap n False (VRef self) st"

text \<open>
  \<^verbatim>\<open>__setattr__\<close>. The three reserved names go to
  \<^verbatim>\<open>object.__setattr__\<close>, which writes the instance attribute. The model
  keeps \<^verbatim>\<open>_name\<close> a string, \<^verbatim>\<open>_data\<close> a dict and
  \<^verbatim>\<open>_logger\<close> a logger, as \<^verbatim>\<open>__init__\<close> leaves them; Python
  would also store a value of another type there, which the model cannot hold
  and reports as \<open>Unmodelled\<close>, with nothing changed.
\<close>

datatype 'a modelled = Unmodelled | Modelled 'a

definition object_setattr :: "addr \<Rightarrow> string \<Rightarrow> pyval \<Rightarrow> state \<Rightarrow> pyval outcome modelled" where
  "object_setattr self attr val st =
     (case lookup st self of
        Some (LoggedConfiguration name data logger) \<Rightarrow>
          (if attr = ''_name'' then
             (case val of
                VStr s \<Rightarrow> Modelled (Return VNone (store self (LoggedConfiguration s data logger) st))
              | _ \<Rightarrow> Unmodelled)
           else if attr = ''_data'' then
             (case val of
                VDict d \<Rightarrow> Modelled (Return VNone (store self (LoggedConfiguration name d logger) st))
              | _ \<Rightarrow> Unmodelled)
           else if attr = ''_logger'' then
             (case val of
                VLogger c \<Rightarrow> Modelled (Return VNone (store self (LoggedConfiguration name data c) st))
              | _ \<Rightarrow> Unmodelled)
           else Unmodelled)
      | _ \<Rightarrow> Modelled (Raise AttributeError st))"

definition LoggedConfiguration_setattr ::
  "nat \<Rightarrow> addr \<Rightarrow> string \<Rightarrow> pyval \<Rightarrow> state \<Rightarrow> pyval outcome modelled" where
  "LoggedConfiguration_setattr n self attr val st =
     (if attr \<in> set [''_name'', ''_data'', ''_logger'']
      then object_setattr self attr val st
      else Modelled (LoggedConfiguration_setitem n self attr val st))"

text \<open>
  Reading an attribute, \<^verbatim>\<open>self.attr\<close>: Python looks in the instance's own
  attributes and in its class, and calls \<^verbatim>\<open>__getattr__\<close> only when both
  fail. The instance has the three attributes \<^verbatim>\<open>__init__\<close> sets; the
  class has the names its body defines, and the names of its bases
  \<^verbatim>\<open>collections.Mapping\<close> and \<^verbatim>\<open>object\<close>, which are not part of
  the module and are a parameter here (\<open>inherited\<close>).
\<close>

datatype attribute = Field pyval | Method string

definition LoggedConfiguration_class :: "string list" where
  "LoggedConfiguration_class =
     [''__init__'', ''__getitem__'', ''__setitem__'', ''__delitem__'', ''__contains__'',
      ''__getattr__'', ''__setattr__'', ''__len__'', ''__iter__'', ''copy'', ''__copy__'',
      ''__deepcopy__'', ''to_dict'', ''__repr__'']"

definition LoggedConfiguration_getattribute ::
  "string list \<Rightarrow> addr \<Rightarrow> string \<Rightarrow> state \<Rightarrow> attribute outcome" where
  "LoggedConfiguration_getattribute inherited self attr st =
     (case lookup st self of
        Some (LoggedConfiguration name data logger) \<Rightarrow>
          if attr = ''_name'' then Return (Field (VStr name)) st
          else if attr = ''_data'' then Return (Field (VDict data)) st
          else if attr = ''_logger'' then Return (Field (VLogger logger)) st
          else if attr \<in> set LoggedConfiguration_class \<union> set inherited then Return (Method attr) st
          else and_then (LoggedConfiguration_getattr self attr st) (\<lambda>v st'. Return (Field v) st')
      | _ \<Rightarrow> Raise AttributeError st)"

section \<open>LoggedList\<close>

text \<open>
  The operations of the built-in \<^verbatim>\<open>list\<close> that the class delegates to.
  \<^verbatim>\<open>list.insert\<close> and \<^verbatim>\<open>list.pop\<close> first convert their index
  to a C \<^verbatim>\<open>ssize_t\<close> (\<open>as_ssize_t\<close>, of 64 bits): an index that is no
  integer is a \<open>TypeError\<close>, an integer outside the range an
  \<open>OverflowError\<close>. \<^verbatim>\<open>list.insert\<close> then clamps the index,
  \<^verbatim>\<open>list.pop\<close> raises \<open>IndexError\<close> out of range, and both count a
  negative index from the end. \<^verbatim>\<open>list.remove\<close>
  deletes the first element equal to its argument; the comparison is Python's
  \<^verbatim>\<open>==\<close>, which the elements define, and is a parameter (\<open>eq\<close>).
  Iterating yields the elements of a list, tuple or set, the keys of a dict or
  of a \<open>LoggedConfiguration\<close>, the characters of a string, and is a
  \<open>TypeError\<close> on other values.
\<close>

definition as_ssize_t :: "pyval \<Rightarrow> error + int" where
  "as_ssize_t index =
     (case index of
        VInt i \<Rightarrow> if - (2 ^ 63) \<le> i \<and> i < 2 ^ 63 then Inr i else Inl OverflowError
      | _ \<Rightarrow> Inl TypeError)"

definition list_insert :: "pyval list \<Rightarrow> pyval \<Rightarrow> pyval \<Rightarrow> error + pyval list" where
  "list_insert xs index v =
     (case as_ssize_t index of
        Inl e \<Rightarrow> Inl e
      | Inr i \<Rightarrow>
          (let n = int (length xs); j = (if i < 0 then max 0 (i + n) else min i n)
           in Inr (take (nat j) xs @ [v] @ drop (nat j) xs)))"

definition list_pop :: "pyval list \<Rightarrow> pyval \<Rightarrow> error + pyval \<times> pyval list" where
  "list_pop xs index =
     (case as_ssize_t index of
        Inl e \<Rightarrow> Inl e
      | Inr i \<Rightarrow>
          (let n = int (length xs); j = (if i < 0 then i + n else i)
           in if 0 \<le> j \<and> j < n then Inr (xs ! nat j, take (nat j) xs @ drop (Suc (nat j)) xs)
              else Inl IndexError))"

fun list_remove :: "(pyval \<Rightarrow> pyval \<Rightarrow> bool) \<Rightarrow> pyval list \<Rightarrow> pyval \<Rightarrow> error + pyval list" where
  "list_remove eq [] v = Inl ValueError"
| "list_remove eq (x # xs) v =
     (if eq x v then Inr xs
      else (case list_remove eq xs v of Inl e \<Rightarrow> Inl e | Inr ys \<Rightarrow> Inr (x # ys)))"

definition iterate :: "state \<Rightarrow> pyval \<Rightarrow> pyval list option" where
  "iterate st v =
     (case v of
        VList xs \<Rightarrow> Some xs
      | VTuple xs \<Rightarrow> Some xs
      | VSet xs \<Rightarrow> Some xs
      | VDict kvs \<Rightarrow> Some (map (\<lambda>kv. VStr (fst kv)) kvs)
      | VStr s \<Rightarrow> Some (map (\<lambda>c. VStr [c]) s)
      | VRef a \<Rightarrow>
          (case lookup st a of
             Some (LoggedConfiguration _ kvs _) \<Rightarrow> Some (map (\<lambda>kv. VStr (fst kv)) kvs)
           | Some (LoggedList _ xs _) \<Rightarrow> Some xs
           | Some (LoggedSet _ xs _) \<Rightarrow> Some xs
           | None \<Rightarrow> None)
      | _ \<Rightarrow> None)"

definition LoggedList_append :: "nat \<Rightarrow> addr \<Rightarrow> pyval \<Rightarrow> state \<Rightarrow> pyval outcome" where
  "LoggedList_append n self val st =
     (case lookup st self of
        Some (LoggedList name items logger) \<Rightarrow>
          and_then (wrap_logged_config_value n (name @ ''[...]'') val
                      (info logger Appending [VStr name, val] st))
            (\<lambda>v st'. Return VNone (store self (LoggedList name (items @ [v]) logger) st'))
      | _ \<Rightarrow> Raise AttributeError st)"

definition LoggedList_remove :: "(pyval \<Rightarrow> pyval \<Rightarrow> bool) \<Rightarrow> addr \<Rightarrow> pyval \<Rightarrow> state \<Rightarrow> pyval outcome" where
  "LoggedList_remove eq self val st =
     (case lookup st self of
        Some (LoggedList name items logger) \<Rightarrow>
          (let st' = info logger Removing [VStr name, val] st in
           case list_remove eq items val of
             Inl e \<Rightarrow> Raise e st'
           | Inr items' \<Rightarrow> Return VNone (store self (LoggedList name items' logger) st'))
      | _ \<Rightarrow> Raise AttributeError st)"

definition LoggedList_insert :: "nat \<Rightarrow> addr \<Rightarrow> pyval \<Rightarrow> pyval \<Rightarrow> state \<Rightarrow> pyval outcome" where
  "LoggedList_insert n self index val st =
     (case lookup st self of
        Some (LoggedList name items logger) \<Rightarrow>
          and_then (wrap_logged_config_value n (name @ ''[...]'') val
                      (info logger Inserting [VStr name, val, index] st))
            (\<lambda>v st'. case list_insert items index v of
                        Inl e \<Rightarrow> Raise e st'
                      | Inr items' \<Rightarrow> Return VNone (store self (LoggedList name items' logger) st'))
      | _ \<Rightarrow> Raise AttributeError st)"

definition LoggedList_pop :: "addr \<Rightarrow> pyval \<Rightarrow> state \<Rightarrow> pyval outcome" where
  "LoggedList_pop self index st =
     (case lookup st self of
        Some (LoggedList name items logger) \<Rightarrow>
          (let st' = info logger PoppingIndex [VStr name, index] st in
           case list_pop items index of
             Inl e \<Rightarrow> Raise e st'
           | Inr (x, items') \<Rightarrow> Return x (store self (LoggedList name items' logger) st'))
      | _ \<Rightarrow> Raise AttributeError st)"

definition LoggedList_clear :: "addr \<Rightarrow> state \<Rightarrow> pyval outcome" where
  "LoggedList_clear self st =
     (case lookup st self of
        Some (LoggedList name items logger) \<Rightarrow>
          Return VNone (store self (LoggedList name [] logger) (info logger Clearing [VStr name] st))
      | _ \<Rightarrow> Raise AttributeError st)"

text \<open>
  \<^verbatim>\<open>extend\<close> hands \<^verbatim>\<open>list.extend\<close> a generator, which wraps one
  element at a time; \<^verbatim>\<open>list.extend\<close> appends each element as the generator
  yields it. An exception raised by the generator ends the call with the
  elements appended so far still in the list. A non-empty list extended with
  itself is iterated while it grows, and the call does not return.
\<close>

fun LoggedList_extend_loop :: "wrapper \<Rightarrow> addr \<Rightarrow> pyval list \<Rightarrow> state \<Rightarrow> pyval outcome" where
  "LoggedList_extend_loop w self [] st = Return VNone st"
| "LoggedList_extend_loop w self (x # xs) st =
     (case lookup st self of
        Some (LoggedList name items logger) \<Rightarrow>
          and_then (w (name @ ''[...]'') x st)
            (\<lambda>v st'. LoggedList_extend_loop w self xs
                        (store self (LoggedList name (items @ [v]) logger) st'))
      | _ \<Rightarrow> Raise AttributeError st)"

definition LoggedList_extend :: "nat \<Rightarrow> addr \<Rightarrow> pyval \<Rightarrow> state \<Rightarrow> pyval outcome" where
  "LoggedList_extend n self iterable st =
     (case lookup st self of
        Some (LoggedList name items logger) \<Rightarrow>
          (let st' = info logger Extending [VStr name, iterable] st in
           case iterate st' iterable of
             None \<Rightarrow> Raise TypeError st'
           | Some xs \<Rightarrow>
               if iterable = VRef self \<and> items \<noteq> [] then OutOfFuel
               else LoggedList_extend_loop (wrap_logged_config_value n) self xs st')
      | _ \<Rightarrow> Raise AttributeError st)"

definition LoggedList_copy_hook :: "nat \<Rightarrow> addr \<Rightarrow> state \<Rightarrow> pyval outcome" where
  "LoggedList_copy_hook n self st =
     (case lookup st self of
        Some (LoggedList name items logger) \<Rightarrow> LoggedList_init n (name @ ''(copy)'') items st
      | _ \<Rightarrow> Raise AttributeError st)"

section \<open>LoggedSet\<close>

text \<open>
  The operations of the built-in \<^verbatim>\<open>set\<close>. Each hashes the elements it is
  given, one after the other, and stops with a \<open>TypeError\<close> at the first that
  is not hashable: \<^verbatim>\<open>update\<close> and \<^verbatim>\<open>difference_update\<close> have then
  already added or removed the elements before it, which the loops return
  beside the error. \<^verbatim>\<open>symmetric_difference_update\<close> first builds a set
  of its argument. \<^verbatim>\<open>remove\<close> and \<^verbatim>\<open>discard\<close> look an unhashable
  set up as a frozenset, and no frozenset is an element here.
  \<^verbatim>\<open>set.pop\<close> takes no argument.
\<close>

fun set_update :: "pyval list \<Rightarrow> pyval list \<Rightarrow> pyval list \<times> error option" where
  "set_update elems [] = (elems, None)"
| "set_update elems (x # xs) =
     (if hashable x then set_update (set_add x elems) xs else (elems, Some TypeError))"

fun set_difference_update :: "pyval list \<Rightarrow> pyval list \<Rightarrow> pyval list \<times> error option" where
  "set_difference_update elems [] = (elems, None)"
| "set_difference_update elems (x # xs) =
     (if hashable x then set_difference_update (removeAll x elems) xs else (elems, Some TypeError))"

fun set_toggle :: "pyval list \<Rightarrow> pyval list \<Rightarrow> pyval list" where
  "set_toggle elems [] = elems"
| "set_toggle elems (x # xs) =
     set_toggle (if x \<in> set elems then removeAll x elems else elems @ [x]) xs"

definition set_symmetric_difference_update :: "pyval list \<Rightarrow> pyval list \<Rightarrow> error + pyval list" where
  "set_symmetric_difference_update elems xs =
     (case set_update [] xs of
        (other, None) \<Rightarrow> Inr (set_toggle elems other)
      | (_, Some e) \<Rightarrow> Inl e)"

definition is_set :: "state \<Rightarrow> pyval \<Rightarrow> bool" where
  "is_set st v =
     (case v of
        VSet _ \<Rightarrow> True
      | VRef a \<Rightarrow> (case lookup st a of Some (LoggedSet _ _ _) \<Rightarrow> True | _ \<Rightarrow> False)
      | _ \<Rightarrow> False)"

definition set_discard :: "state \<Rightarrow> pyval list \<Rightarrow> pyval \<Rightarrow> error + pyval list" where
  "set_discard st elems v =
     (if hashable v then Inr (removeAll v elems)
      else if is_set st v then Inr elems
      else Inl TypeError)"

definition set_remove :: "state \<Rightarrow> pyval list \<Rightarrow> pyval \<Rightarrow> error + pyval list" where
  "set_remove st elems v =
     (if hashable v then (if v \<in> set elems then Inr (removeAll v elems) else Inl KeyError)
      else if is_set st v then Inl KeyError
      else Inl TypeError)"

definition set_pop :: "pyval list \<Rightarrow> pyval list \<Rightarrow> error + pyval \<times> pyval list" where
  "set_pop elems args =
     (if args \<noteq> [] then Inl TypeError
      else (case elems of [] \<Rightarrow> Inl KeyError | x # xs \<Rightarrow> Inr (x, xs)))"

definition LoggedSet_add :: "addr \<Rightarrow> pyval \<Rightarrow> state \<Rightarrow> pyval outcome" where
  "LoggedSet_add self val st =
     (case lookup st self of
        Some (LoggedSet name elems logger) \<Rightarrow>
          (let st' = info logger Adding [VStr name, val] st in
           if hashable val then Return VNone (store self (LoggedSet name (set_add val elems) logger) st')
           else Raise TypeError st')
      | _ \<Rightarrow> Raise AttributeError st)"

definition LoggedSet_clear :: "addr \<Rightarrow> state \<Rightarrow> pyval outcome" where
  "LoggedSet_clear self st =
     (case lookup st self of
        Some (LoggedSet name elems logger) \<Rightarrow>
          Return VNone (store self (LoggedSet name [] logger) (info logger Clearing [VStr name] st))
      | _ \<Rightarrow> Raise AttributeError st)"

definition LoggedSet_difference_update :: "addr \<Rightarrow> pyval \<Rightarrow> state \<Rightarrow> pyval outcome" where
  "LoggedSet_difference_update self val st =
     (case lookup st self of
        Some (LoggedSet name elems logger) \<Rightarrow>
          (let st' = info logger DifferenceUpdate [VStr name, val] st in
           case iterate st' val of
             None \<Rightarrow> Raise TypeError st'
           | Some xs \<Rightarrow>
               (case set_difference_update elems xs of
                  (elems', None) \<Rightarrow> Return VNone (store self (LoggedSet name elems' logger) st')
                | (elems', Some e) \<Rightarrow> Raise e (store self (LoggedSet name elems' logger) st')))
      | _ \<Rightarrow> Raise AttributeError st)"

definition LoggedSet_discard :: "addr \<Rightarrow> pyval \<Rightarrow> state \<Rightarrow> pyval outcome" where
  "LoggedSet_discard self val st =
     (case lookup st self of
        Some (LoggedSet name elems logger) \<Rightarrow>
          (let st' = info logger Discarding [VStr name, val] st in
           case set_discard st' elems val of
             Inl e \<Rightarrow> Raise e st'
           | Inr elems' \<Rightarrow> Return VNone (store self (LoggedSet name elems' logger) st'))
      | _ \<Rightarrow> Raise AttributeError st)"

definition LoggedSet_pop :: "addr \<Rightarrow> pyval \<Rightarrow> state \<Rightarrow> pyval outcome" where
  "LoggedSet_pop self val st =
     (case lookup st self of
        Some (LoggedSet name elems logger) \<Rightarrow>
          (let st' = info logger Popping [VStr name, val] st in
           case set_pop elems [val] of
             Inl e \<Rightarrow> Raise e st'
           | Inr (x, elems') \<Rightarrow> Return x (store self (LoggedSet name elems' logger) st'))
      | _ \<Rightarrow> Raise AttributeError st)"

definition LoggedSet_remove :: "addr \<Rightarrow> pyval \<Rightarrow> state \<Rightarrow> pyval outcome" where
  "LoggedSet_remove self val st =
     (case lookup st self of
        Some (LoggedSet name elems logger) \<Rightarrow>
          (let st' = info logger Removing [VStr name, val] st in
           case set_remove st' elems val of
             Inl e \<Rightarrow> Raise e st'
           | Inr elems' \<Rightarrow> Return VNone (store self (LoggedSet name elems' logger) st'))
      | _ \<Rightarrow> Raise AttributeError st)"

definition LoggedSet_symmetric_difference_update :: "addr \<Rightarrow> pyval \<Rightarrow> state \<Rightarrow> pyval outcome" where
  "LoggedSet_symmetric_difference_update self val st =
     (case lookup st self of
        Some (LoggedSet name elems logger) \<Rightarrow>
          (let st' = info logger SymmetricDifferenceUpdate [VStr name, val] st in
           case iterate st' val of
             None \<Rightarrow> Raise TypeError st'
           | Some xs \<Rightarrow>
               (case set_symmetric_difference_update elems xs of
                  Inl e \<Rightarrow> Raise e st'
                | Inr elems' \<Rightarrow> Return VNone (store self (LoggedSet name elems' logger) st')))
      | _ \<Rightarrow> Raise AttributeError st)"

definition LoggedSet_update :: "addr \<Rightarrow> pyval \<Rightarrow> state \<Rightarrow> pyval outcome" where
  "LoggedSet_update self val st =
     (case lookup st self of
        Some (LoggedSet name elems logger) \<Rightarrow>
          (let st' = info logger Updating [VStr name, val] st in
           case iterate st' val of
             None \<Rightarrow> Raise TypeError st'
           | Some xs \<Rightarrow>
               (case set_update elems xs of
                  (elems', None) \<Rightarrow> Return VNone (store self (LoggedSet name elems' logger) st')
                | (elems', Some e) \<Rightarrow> Raise e (store self (LoggedSet name elems' logger) st')))
      | _ \<Rightarrow> Raise AttributeError st)"

definition LoggedSet_copy_hook :: "nat \<Rightarrow> addr \<Rightarrow> state \<Rightarrow> pyval outcome" where
  "LoggedSet_copy_hook n self st =
     (case lookup st self of
        Some (LoggedSet name elems logger) \<Rightarrow> LoggedSet_init n (name @ ''(copy)'') elems st
      | _ \<Rightarrow> Raise AttributeError st)"

text \<open>
  A call \<^verbatim>\<open>s.pop(*args)\<close>: the method is declared with one parameter
  beside \<^verbatim>\<open>self\<close>, and Python raises \<open>TypeError\<close> before entering it
  when the call gives another number of arguments.
\<close>

definition call_LoggedSet_pop :: "addr \<Rightarrow> pyval list \<Rightarrow> state \<Rightarrow> pyval outcome" where
  "call_LoggedSet_pop self args st =
     (case args of [val] \<Rightarrow> LoggedSet_pop self val st | _ \<Rightarrow> Raise TypeError st)"

section \<open>Copying\<close>

text \<open>
  \<^verbatim>\<open>copy.copy(x)\<close> calls \<^verbatim>\<open>x.__copy__()\<close>, and
  \<^verbatim>\<open>copy.deepcopy(x, memo)\<close> calls \<^verbatim>\<open>x.__deepcopy__(memo)\<close>
  unless \<open>memo\<close> already holds a copy of \<open>x\<close>, and records the copy in
  \<open>memo\<close>. \<^verbatim>\<open>deepcopy\<close> returns \<open>None\<close>, integers, strings and
  loggers as they are and copies plain lists, tuples, sets and dicts element
  by element.

  \<^verbatim>\<open>LoggedList.__deepcopy__\<close> and \<^verbatim>\<open>LoggedSet.__deepcopy__\<close>
  hand the constructor a generator: each element is deep-copied, then wrapped,
  before the next one is deep-copied. \<^verbatim>\<open>LoggedConfiguration.__deepcopy__\<close>
  deep-copies the whole of \<^verbatim>\<open>_data\<close> before it calls the constructor.
\<close>

type_synonym memo = "(addr \<times> pyval) list"

type_synonym deepcopier = "memo \<Rightarrow> pyval \<Rightarrow> state \<Rightarrow> (pyval \<times> memo) outcome"

fun deepcopy_elements :: "deepcopier \<Rightarrow> memo \<Rightarrow> pyval list \<Rightarrow> state \<Rightarrow> (pyval list \<times> memo) outcome" where
  "deepcopy_elements dc memo [] st = Return ([], memo) st"
| "deepcopy_elements dc memo (x # xs) st =
     and_then (dc memo x st)
       (\<lambda>r st1. and_then (deepcopy_elements dc (snd r) xs st1)
          (\<lambda>rs st2. Return (fst r # fst rs, snd rs) st2))"

fun deepcopy_items ::
  "deepcopier \<Rightarrow> memo \<Rightarrow> (string \<times> pyval) list \<Rightarrow> (string \<times> pyval) list \<Rightarrow> state
     \<Rightarrow> ((string \<times> pyval) list \<times> memo) outcome" where
  "deepcopy_items dc memo [] acc st = Return (acc, memo) st"
| "deepcopy_items dc memo (kv # kvs) acc st =
     and_then (dc memo (snd kv) st)
       (\<lambda>r st1. deepcopy_items dc (snd r) kvs (dict_set (fst kv) (fst r) acc) st1)"

fun LoggedList_deepcopy_elements ::
  "deepcopier \<Rightarrow> wrapper \<Rightarrow> string \<Rightarrow> memo \<Rightarrow> pyval list \<Rightarrow> state \<Rightarrow> (pyval list \<times> memo) outcome" where
  "LoggedList_deepcopy_elements dc w name memo [] st = Return ([], memo) st"
| "LoggedList_deepcopy_elements dc w name memo (x # xs) st =
     and_then (dc memo x st)
       (\<lambda>r st1. and_then (w (name @ ''[...]'') (fst r) st1)
          (\<lambda>v st2. and_then (LoggedList_deepcopy_elements dc w name (snd r) xs st2)
             (\<lambda>rs st3. Return (v # fst rs, snd rs) st3)))"

fun LoggedSet_deepcopy_elements ::
  "deepcopier \<Rightarrow> wrapper \<Rightarrow> string \<Rightarrow> memo \<Rightarrow> pyval list \<Rightarrow> pyval list \<Rightarrow> state
     \<Rightarrow> (pyval list \<times> memo) outcome" where
  "LoggedSet_deepcopy_elements dc w name memo [] acc st = Return (acc, memo) st"
| "LoggedSet_deepcopy_elements dc w name memo (x # xs) acc st =
     and_then (dc memo x st)
       (\<lambda>r st1. and_then (w (name @ ''[...]'') (fst r) st1)
          (\<lambda>v st2. if hashable v
                     then LoggedSet_deepcopy_elements dc w name (snd r) xs (set_add v acc) st2
                     else Raise TypeError st2))"

definition LoggedConfiguration_deepcopy_hook ::
  "deepcopier \<Rightarrow> wrapper \<Rightarrow> addr \<Rightarrow> memo \<Rightarrow> state \<Rightarrow> (pyval \<times> memo) outcome" where
  "LoggedConfiguration_deepcopy_hook dc w self memo st =
     (case lookup st self of
        Some (LoggedConfiguration name data logger) \<Rightarrow>
          and_then (deepcopy_items dc memo data [] st)
            (\<lambda>r st1. and_then (LoggedConfiguration_new w (name @ ''(copy)'') (fst r) st1)
               (\<lambda>y st2. Return (y, snd r) st2))
      | _ \<Rightarrow> Raise AttributeError st)"

definition LoggedList_deepcopy_hook ::
  "deepcopier \<Rightarrow> wrapper \<Rightarrow> addr \<Rightarrow> memo \<Rightarrow> state \<Rightarrow> (pyval \<times> memo) outcome" where
  "LoggedList_deepcopy_hook dc w self memo st =
     (case lookup st self of
        Some (LoggedList name items logger) \<Rightarrow>
          and_then (LoggedList_deepcopy_elements dc w (name @ ''(copy)'') memo items st)
            (\<lambda>r st1. and_then (alloc (LoggedList (name @ ''(copy)'') (fst r) (name @ ''(copy)'')) st1)
               (\<lambda>y st2. Return (y, snd r) st2))
      | _ \<Rightarrow> Raise AttributeError st)"

definition LoggedSet_deepcopy_hook ::
  "deepcopier \<Rightarrow> wrapper \<Rightarrow> addr \<Rightarrow> memo \<Rightarrow> state \<Rightarrow> (pyval \<times> memo) outcome" where
  "LoggedSet_deepcopy_hook dc w self memo st =
     (case lookup st self of
        Some (LoggedSet name elems logger) \<Rightarrow>
          and_then (LoggedSet_deepcopy_elements dc w (name @ ''(copy)'') memo elems [] st)
            (\<lambda>r st1. and_then (alloc (LoggedSet (name @ ''(copy)'') (fst r) (name @ ''(copy)'')) st1)
               (\<lambda>y st2. Return (y, snd r) st2))
      | _ \<Rightarrow> Raise AttributeError st)"

definition deepcopy_body :: "deepcopier \<Rightarrow> wrapper \<Rightarrow> deepcopier" where
  "deepcopy_body dc w memo val st =
     (case val of
        VRef a \<Rightarrow>
          (case map_of memo a of
             Some y \<Rightarrow> Return (y, memo) st
           | None \<Rightarrow>
               (case lookup st a of
                  None \<Rightarrow> Return (val, memo) st
                | Some ob \<Rightarrow>
                    and_then
                      (case ob of
                         LoggedConfiguration _ _ _ \<Rightarrow> LoggedConfiguration_deepcopy_hook dc w a memo st
                       | LoggedList _ _ _ \<Rightarrow> LoggedList_deepcopy_hook dc w a memo st
                       | LoggedSet _ _ _ \<Rightarrow> LoggedSet_deepcopy_hook dc w a memo st)
                      (\<lambda>r st1. Return (fst r, (a, fst r) # snd r) st1)))
      | VList xs \<Rightarrow>
          and_then (deepcopy_elements dc memo xs st) (\<lambda>r st1. Return (VList (fst r), snd r) st1)
      | VTuple xs \<Rightarrow>
          and_then (deepcopy_elements dc memo xs st) (\<lambda>r st1. Return (VTuple (fst r), snd r) st1)
      | VSet xs \<Rightarrow>
          and_then (deepcopy_elements dc memo xs st) (\<lambda>r st1. Return (VSet (fst r), snd r) st1)
      | VDict kvs \<Rightarrow>
          and_then (deepcopy_items dc memo kvs [] st) (\<lambda>r st1. Return (VDict (fst r), snd r) st1)
      | _ \<Rightarrow> Return (val, memo) st)"

primrec deepcopy :: "nat \<Rightarrow> deepcopier" where
  "deepcopy 0 = (\<lambda>memo val st. OutOfFuel)"
| "deepcopy (Suc n) = deepcopy_body (deepcopy n) (wrap_logged_config_value n)"

definition copy_deepcopy :: "nat \<Rightarrow> pyval \<Rightarrow> state \<Rightarrow> pyval outcome" where
  "copy_deepcopy n x st = and_then (deepcopy n [] x st) (\<lambda>r st1. Return (fst r) st1)"

definition LoggedConfiguration_copy_hook :: "nat \<Rightarrow> addr \<Rightarrow> state \<Rightarrow> pyval outcome" where
  "LoggedConfiguration_copy_hook n self st =
     (case lookup st self of
        Some (LoggedConfiguration name data logger) \<Rightarrow>
          LoggedConfiguration_init n (name @ ''(copy)'') data st
      | _ \<Rightarrow> Raise AttributeError st)"

definition copy_copy :: "nat \<Rightarrow> addr \<Rightarrow> state \<Rightarrow> pyval outcome" where
  "copy_copy n x st =
     (case lookup st x of
        Some (LoggedConfiguration _ _ _) \<Rightarrow> LoggedConfiguration_copy_hook n x st
      | Some (LoggedList _ _ _) \<Rightarrow> LoggedList_copy_hook n x st
      | Some (LoggedSet _ _ _) \<Rightarrow> LoggedSet_copy_hook n x st
      | None \<Rightarrow> Raise AttributeError st)"

definition LoggedConfiguration_copy :: "nat \<Rightarrow> addr \<Rightarrow> bool \<Rightarrow> state \<Rightarrow> pyval outcome" where
  "LoggedConfiguration_copy n self deep st =
     (case lookup st self of
        Some (LoggedConfiguration _ _ _) \<Rightarrow>
          if deep then copy_deepcopy n (VRef self) st else copy_copy n self st
      | _ \<Rightarrow> Raise AttributeError st)"

section \<open>The invariant of the stored values\<close>

text \<open>
  The values a container holds, and the invariant that none of them is a plain
  list, tuple, set or dict: every stored container is one of the three logged
  classes. It is stated of every object of the store, so of the containers at
  every depth.
\<close>

definition stored_values :: "obj \<Rightarrow> pyval list" where
  "stored_values ob =
     (case ob of
        LoggedConfiguration _ data _ \<Rightarrow> map snd data
      | LoggedList _ items _ \<Rightarrow> items
      | LoggedSet _ elems _ \<Rightarrow> elems)"

definition plain_container :: "pyval \<Rightarrow> bool" where
  "plain_container v =
     (case v of VList _ \<Rightarrow> True | VTuple _ \<Rightarrow> True | VSet _ \<Rightarrow> True | VDict _ \<Rightarrow> True | _ \<Rightarrow> False)"

definition all_wrapped :: "state \<Rightarrow> bool" where
  "all_wrapped st = list_all (\<lambda>ob. list_all (\<lambda>v. \<not> plain_container v) (stored_values ob)) (heap st)"

section \<open>What a call leaves behind\<close>

text \<open>
  \<open>grows st st'\<close>: from \<open>st\<close> to \<open>st'\<close> objects were created and
  nothing else happened: every object of \<open>st\<close> is as it was, and the trace
  has grown by \<open>Alloc\<close> events only. \<open>after P r\<close>: the state in which the
  call \<open>r\<close> ended, by return or by exception, satisfies \<open>P\<close>.
\<close>

definition is_alloc :: "event \<Rightarrow> bool" where
  "is_alloc e = (case e of Alloc _ \<Rightarrow> True | _ \<Rightarrow> False)"

definition is_info :: "event \<Rightarrow> bool" where
  "is_info e = (case e of Info _ _ _ \<Rightarrow> True | _ \<Rightarrow> False)"

definition grows :: "state \<Rightarrow> state \<Rightarrow> bool" where
  "grows st st' =
     (prefix (heap st) (heap st') \<and> prefix (trace st) (trace st') \<and>
      list_all is_alloc (drop (length (trace st)) (trace st')))"

definition after :: "(state \<Rightarrow> bool) \<Rightarrow> 'a outcome \<Rightarrow> bool" where
  "after P r = (case r of OutOfFuel \<Rightarrow> True | Raise e st \<Rightarrow> P st | Return x st \<Rightarrow> P st)"

definition growing :: "wrapper \<Rightarrow> bool" where
  "growing w = (\<forall>cn v st. after (grows st) (w cn v st))"

section \<open>Plain data\<close>

text \<open>
  The data a caller hands to the constructors: \<open>plain\<close> values hold no
  reference to a stored object, \<open>primitive\<close> values are no containers, and
  \<open>depth\<close> counts the levels of nesting. A value is \<open>wrappable\<close> when every
  set in it holds primitive values only. \<open>class_of\<close> is the branch of
  \<^verbatim>\<open>wrap_logged_config_value\<close> a value takes, and \<open>new_logged c name st st' r\<close>
  says that \<open>r\<close> is an object of class \<open>c\<close> created between \<open>st\<close> and
  \<open>st'\<close>, with name and logger channel \<open>name\<close>. A wrapping function
  \<open>decides\<close> plain values of depth below \<open>m\<close> when it returns on the
  wrappable ones and raises \<open>TypeError\<close> on the others.
\<close>

definition primitive :: "pyval \<Rightarrow> bool" where
  "primitive v =
     (case v of VNone \<Rightarrow> True | VInt _ \<Rightarrow> True | VStr _ \<Rightarrow> True | VLogger _ \<Rightarrow> True | _ \<Rightarrow> False)"

fun plain :: "pyval \<Rightarrow> bool" where
  "plain (VList xs) = list_all plain xs"
| "plain (VTuple xs) = list_all plain xs"
| "plain (VSet xs) = list_all plain xs"
| "plain (VDict kvs) = list_all (\<lambda>kv. plain (snd kv)) kvs"
| "plain (VRef a) = False"
| "plain v = True"

fun depth :: "pyval \<Rightarrow> nat" where
  "depth (VList xs) = Suc (foldr max (map depth xs) 0)"
| "depth (VTuple xs) = Suc (foldr max (map depth xs) 0)"
| "depth (VSet xs) = Suc (foldr max (map depth xs) 0)"
| "depth (VDict kvs) = Suc (foldr max (map (\<lambda>kv. depth (snd kv)) kvs) 0)"
| "depth v = 0"

fun wrappable :: "pyval \<Rightarrow> bool" where
  "wrappable (VList xs) = list_all wrappable xs"
| "wrappable (VTuple xs) = list_all wrappable xs"
| "wrappable (VSet xs) = list_all primitive xs"
| "wrappable (VDict kvs) = list_all (\<lambda>kv. wrappable (snd kv)) kvs"
| "wrappable v = True"

datatype cls = Sequence | SetClass | Mapping

definition class_of :: "state \<Rightarrow> pyval \<Rightarrow> cls option" where
  "class_of st v =
     (case v of
        VList _ \<Rightarrow> Some Sequence
      | VTuple _ \<Rightarrow> Some Sequence
      | VSet _ \<Rightarrow> Some SetClass
      | VDict _ \<Rightarrow> Some Mapping
      | VRef a \<Rightarrow>
          (case lookup st a of
             Some (LoggedList _ _ _) \<Rightarrow> Some Sequence
           | Some (LoggedSet _ _ _) \<Rightarrow> Some SetClass
           | _ \<Rightarrow> None)
      | _ \<Rightarrow> None)"

definition new_logged :: "cls \<Rightarrow> string \<Rightarrow> state \<Rightarrow> state \<Rightarrow> pyval \<Rightarrow> bool" where
  "new_logged c name st st' r =
     (case r of
        VRef a \<Rightarrow>
          length (heap st) \<le> a \<and>
          (case lookup st' a of
             Some (LoggedList name' _ logger) \<Rightarrow> c = Sequence \<and> name' = name \<and> logger = name
           | Some (LoggedSet name' _ logger) \<Rightarrow> c = SetClass \<and> name' = name \<and> logger = name
           | Some (LoggedConfiguration name' _ logger) \<Rightarrow> c = Mapping \<and> name' = name \<and> logger = name
           | None \<Rightarrow> False)
      | _ \<Rightarrow> False)"

definition only_TypeError :: "'a outcome \<Rightarrow> bool" where
  "only_TypeError r = (case r of Raise e st \<Rightarrow> e = TypeError | _ \<Rightarrow> True)"

definition decides :: "wrapper \<Rightarrow> nat \<Rightarrow> bool" where
  "decides w m =
     (\<forall>v cn st. plain v \<and> depth v < m \<longrightarrow>
        (wrappable v \<longrightarrow>
           (\<exists>r st'. w cn v st = Return r st' \<and> (primitive v \<longrightarrow> r = v) \<and> (\<not> primitive v \<longrightarrow> \<not> hashable r))) \<and>
        (\<not> wrappable v \<longrightarrow> (\<exists>st'. w cn v st = Raise TypeError st')))"

text \<open>The log: the \<open>Info\<close> events of the trace, in the order they were emitted.\<close>

definition log_of :: "state \<Rightarrow> event list" where
  "log_of st = filter is_info (trace st)"

section \<open>The mutating calls\<close>

text \<open>
  The mutating methods the three classes define, each with the parameters of
  its declaration; \<open>invoke\<close> is the call of one of them on the object at
  \<open>self\<close>. \<open>receiver\<close> is the class that defines the method, \<open>template\<close>
  and \<open>arguments\<close> are what the method passes to \<^verbatim>\<open>self._logger.info\<close>
  after \<^verbatim>\<open>self._name\<close>, and \<open>errors\<close> the exceptions the container
  operation behind the method can raise. The \<open>elementwise\<close> calls work through
  their argument one element at a time. \<open>quiet st st'\<close>: from \<open>st\<close> to
  \<open>st'\<close> no log record was emitted.

  \<open>operation_error\<close> is the exception, if there is one, of what the body of
  the method does after it has logged, on the container \<open>ob\<close> in the state
  \<open>st\<close>: the wrapping of the argument in the methods that wrap, then the
  method of the base class (\<^verbatim>\<open>dict\<close>, \<^verbatim>\<open>list\<close> or \<^verbatim>\<open>set\<close>)
  that the body calls; for \<^verbatim>\<open>extend\<close> that is \<^verbatim>\<open>list.extend\<close> on
  the generator. \<open>raised\<close> and \<open>failure\<close> read the exception off an outcome
  and off the result of a built-in operation.
\<close>

datatype call =
    SetItem string pyval
  | DelItem string
  | ListAppend pyval
  | ListInsert pyval pyval
  | ListRemove pyval
  | ListPop pyval
  | ListClear
  | ListExtend pyval
  | SetAdd pyval
  | SetClear
  | SetDifferenceUpdate pyval
  | SetDiscard pyval
  | SetPop pyval
  | SetRemove pyval
  | SetSymmetricDifferenceUpdate pyval
  | SetUpdate pyval

fun invoke :: "(pyval \<Rightarrow> pyval \<Rightarrow> bool) \<Rightarrow> nat \<Rightarrow> addr \<Rightarrow> call \<Rightarrow> state \<Rightarrow> pyval outcome" where
  "invoke eq n self (SetItem key val) st = LoggedConfiguration_setitem n self key val st"
| "invoke eq n self (DelItem key) st = LoggedConfiguration_delitem self key st"
| "invoke eq n self (ListAppend val) st = LoggedList_append n self val st"
| "invoke eq n self (ListInsert index val) st = LoggedList_insert n self index val st"
| "invoke eq n self (ListRemove val) st = LoggedList_remove eq self val st"
| "invoke eq n self (ListPop index) st = LoggedList_pop self index st"
| "invoke eq n self ListClear st = LoggedList_clear self st"
| "invoke eq n self (ListExtend iterable) st = LoggedList_extend n self iterable st"
| "invoke eq n self (SetAdd val) st = LoggedSet_add self val st"
| "invoke eq n self SetClear st = LoggedSet_clear self st"
| "invoke eq n self (SetDifferenceUpdate val) st = LoggedSet_difference_update self val st"
| "invoke eq n self (SetDiscard val) st = LoggedSet_discard self val st"
| "invoke eq n self (SetPop val) st = LoggedSet_pop self val st"
| "invoke eq n self (SetRemove val) st = LoggedSet_remove self val st"
| "invoke eq n self (SetSymmetricDifferenceUpdate val) st = LoggedSet_symmetric_difference_update self val st"
| "invoke eq n self (SetUpdate val) st = LoggedSet_update self val st"

fun receiver :: "call \<Rightarrow> cls" where
  "receiver (SetItem key val) = Mapping"
| "receiver (DelItem key) = Mapping"
| "receiver (ListAppend val) = Sequence"
| "receiver (ListInsert index val) = Sequence"
| "receiver (ListRemove val) = Sequence"
| "receiver (ListPop index) = Sequence"
| "receiver ListClear = Sequence"
| "receiver (ListExtend iterable) = Sequence"
| "receiver c = SetClass"

fun template :: "call \<Rightarrow> string" where
  "template (SetItem key val) = Setting"
| "template (DelItem key) = Removing"
| "template (ListAppend val) = Appending"
| "template (ListInsert index val) = Inserting"
| "template (ListRemove val) = Removing"
| "template (ListPop index) = PoppingIndex"
| "template ListClear = Clearing"
| "template (ListExtend iterable) = Extending"
| "template (SetAdd val) = Adding"
| "template SetClear = Clearing"
| "template (SetDifferenceUpdate val) = DifferenceUpdate"
| "template (SetDiscard val) = Discarding"
| "template (SetPop val) = Popping"
| "template (SetRemove val) = Removing"
| "template (SetSymmetricDifferenceUpdate val) = SymmetricDifferenceUpdate"
| "template (SetUpdate val) = Updating"

fun arguments :: "call \<Rightarrow> pyval list" where
  "arguments (SetItem key val) = [VStr key, val]"
| "arguments (DelItem key) = [VStr key]"
| "arguments (ListAppend val) = [val]"
| "arguments (ListInsert index val) = [val, index]"
| "arguments (ListRemove val) = [val]"
| "arguments (ListPop index) = [index]"
| "arguments ListClear = []"
| "arguments (ListExtend iterable) = [iterable]"
| "arguments (SetAdd val) = [val]"
| "arguments SetClear = []"
| "arguments (SetDifferenceUpdate val) = [val]"
| "arguments (SetDiscard val) = [val]"
| "arguments (SetPop val) = [val]"
| "arguments (SetRemove val) = [val]"
| "arguments (SetSymmetricDifferenceUpdate val) = [val]"
| "arguments (SetUpdate val) = [val]"

definition class_of_obj :: "obj \<Rightarrow> cls" where
  "class_of_obj ob =
     (case ob of
        LoggedConfiguration _ _ _ \<Rightarrow> Mapping
      | LoggedList _ _ _ \<Rightarrow> Sequence
      | LoggedSet _ _ _ \<Rightarrow> SetClass)"

definition name_of :: "obj \<Rightarrow> string" where
  "name_of ob =
     (case ob of
        LoggedConfiguration name _ _ \<Rightarrow> name
      | LoggedList name _ _ \<Rightarrow> name
      | LoggedSet name _ _ \<Rightarrow> name)"

definition logger_of :: "obj \<Rightarrow> string" where
  "logger_of ob =
     (case ob of
        LoggedConfiguration _ _ logger \<Rightarrow> logger
      | LoggedList _ _ logger \<Rightarrow> logger
      | LoggedSet _ _ logger \<Rightarrow> logger)"

definition quiet :: "state \<Rightarrow> state \<Rightarrow> bool" where
  "quiet st st' =
     (prefix (trace st) (trace st') \<and>
      list_all (\<lambda>e. \<not> is_info e) (drop (length (trace st)) (trace st')))"






section \<open>Plain data without tuples\<close>




section \<open>Stored trees\<close>

text \<open>
  \<open>good d h v\<close>: in the store \<open>h\<close>, the value \<open>v\<close> is a primitive
  value or a stored container whose values are themselves good, over fewer
  than \<open>d\<close> levels of nesting, with primitive values only in its sets:
  the stored values are all wrapped, and the nesting is finite. A wrapping
  function \<open>keeps_good\<close> when its result is good wherever its argument is (and
  is its argument when that is primitive), and it \<open>returns_good\<close> up to \<open>n\<close>
  when it returns on every good value of at most \<open>n\<close> levels.
\<close>

primrec good :: "nat \<Rightarrow> obj list \<Rightarrow> pyval \<Rightarrow> bool" where
  "good 0 h v = False"
| "good (Suc d) h v =
     (case v of
        VRef a \<Rightarrow>
          a < length h \<and>
          (case h ! a of
             LoggedConfiguration _ kvs _ \<Rightarrow> list_all (\<lambda>kv. good d h (snd kv)) kvs
           | LoggedList _ xs _ \<Rightarrow> list_all (good d h) xs
           | LoggedSet _ xs _ \<Rightarrow> list_all (\<lambda>x. primitive x \<and> good d h x) xs)
      | VList _ \<Rightarrow> False
      | VTuple _ \<Rightarrow> False
      | VSet _ \<Rightarrow> False
      | VDict _ \<Rightarrow> False
      | _ \<Rightarrow> True)"

definition keeps_good :: "wrapper \<Rightarrow> bool" where
  "keeps_good w =
     (\<forall>cn v st r st'. w cn v st = Return r st' \<longrightarrow>
        (primitive v \<longrightarrow> r = v) \<and> (\<forall>d. good d (heap st) v \<longrightarrow> good d (heap st') r))"

definition returns_good :: "wrapper \<Rightarrow> nat \<Rightarrow> bool" where
  "returns_good w n =
     (\<forall>cn v st d. good d (heap st) v \<and> d \<le> n \<longrightarrow> (\<exists>r st'. w cn v st = Return r st'))"

section \<open>Deep copies of stored trees\<close>

text \<open>
  The same properties for \<^verbatim>\<open>copy.deepcopy\<close>, which carries a memo. The
  values to copy are good in a store \<open>h0\<close> that the current store extends.
  \<open>memo_ok h0 h memo\<close>: every copy that the memo holds is, in \<open>h\<close>, as
  good as its original is in \<open>h0\<close>. A deep-copying function is
  \<open>growing_dc\<close> when it only allocates, it \<open>keeps_good_dc\<close> when its
  result is as good as its argument (and is its argument when that is
  primitive) and its memo stays \<open>memo_ok\<close>, and it \<open>returns_good_dc\<close> up
  to \<open>n\<close> when it returns on every good value of at most \<open>n\<close> levels.
\<close>

definition growing_dc :: "deepcopier \<Rightarrow> bool" where
  "growing_dc dc = (\<forall>memo v st. after (grows st) (dc memo v st))"

definition memo_ok :: "obj list \<Rightarrow> obj list \<Rightarrow> memo \<Rightarrow> bool" where
  "memo_ok h0 h memo = (\<forall>a y. map_of memo a = Some y \<longrightarrow> (\<forall>d. good d h0 (VRef a) \<longrightarrow> good d h y))"

definition keeps_good_dc :: "deepcopier \<Rightarrow> bool" where
  "keeps_good_dc dc =
     (\<forall>h0 memo v st r st'. prefix h0 (heap st) \<and> memo_ok h0 (heap st) memo \<and> dc memo v st = Return r st' \<longrightarrow>
        (primitive v \<longrightarrow> fst r = v) \<and> (\<forall>d. good d h0 v \<longrightarrow> good d (heap st') (fst r)) \<and>
        memo_ok h0 (heap st') (snd r))"

definition returns_good_dc :: "deepcopier \<Rightarrow> nat \<Rightarrow> bool" where
  "returns_good_dc dc n =
     (\<forall>h0 memo v st d. prefix h0 (heap st) \<and> memo_ok h0 (heap st) memo \<and> good d h0 v \<and> d \<le> n \<longrightarrow>
        (\<exists>r st'. dc memo v st = Return r st'))"

section \<open>Basic facts\<close>

lemma and_then_cong:
  "r = r' \<Longrightarrow> (\<And>x st. r' = Return x st \<Longrightarrow> f x st = f' x st) \<Longrightarrow> and_then r f = and_then r' f'"
  by (cases r') (simp_all add: and_then_def)

lemma and_then_simps [simp]:
  "and_then OutOfFuel f = OutOfFuel"
  "and_then (Raise e st) f = Raise e st"
  "and_then (Return x st) f = f x st"
  by (simp_all add: and_then_def)

lemmas store_defs = lookup_def alloc_def store_def info_def set_add_def dict_set_def dict_del_def

lemmas wrap_defs = LoggedConfiguration_new_def LoggedList_new_def LoggedSet_new_def wrap_body_def
  LoggedConfiguration_init_def LoggedList_init_def LoggedSet_init_def

lemma after_simps [simp]:
  "after P OutOfFuel = True"
  "after P (Raise e st) = P st"
  "after P (Return x st) = P st"
  by (simp_all add: after_def)

lemma grows_refl [simp]: "grows st st"
  by (simp add: grows_def)

lemma grows_trans: "grows st1 st2 \<Longrightarrow> grows st2 st3 \<Longrightarrow> grows st1 st3"
proof -
  assume a: "grows st1 st2" and b: "grows st2 st3"
  from a obtain es1 where e1: "trace st2 = trace st1 @ es1" and l1: "list_all is_alloc es1"
    by (auto simp: grows_def prefix_def)
  from b obtain es2 where e2: "trace st3 = trace st2 @ es2" and l2: "list_all is_alloc es2"
    by (auto simp: grows_def prefix_def)
  from a b have "prefix (heap st1) (heap st3)"
    by (auto simp: grows_def)
  with e1 e2 l1 l2 show ?thesis
    by (simp add: grows_def)
qed

lemma after_and_then:
  assumes "after (grows st) r"
    and "\<And>x st1. r = Return x st1 \<Longrightarrow> after (grows st1) (f x st1)"
  shows "after (grows st) (and_then r f)"
proof (cases r)
  case (Return x st1)
  with assms have "grows st st1" "after (grows st1) (f x st1)" by simp_all
  then show ?thesis using Return
    by (cases "f x st1") (auto intro: grows_trans)
qed (use assms in simp_all)

lemma grows_alloc: "after (grows st) (alloc ob st)"
  by (simp add: alloc_def grows_def is_alloc_def)

lemma growing_LoggedList_elements:
  "growing w \<Longrightarrow> after (grows st) (LoggedList_elements w name xs st)"
proof (induction xs arbitrary: st)
  case Nil
  then show ?case by simp
next
  case (Cons x xs)
  show ?case
    unfolding LoggedList_elements.simps
    apply (rule after_and_then)
    using Cons.prems apply (simp add: growing_def)
    apply (rule after_and_then)
     apply (rule Cons.IH [OF Cons.prems])
    apply simp
    done
qed

lemma growing_LoggedSet_elements:
  "growing w \<Longrightarrow> after (grows st) (LoggedSet_elements w name xs acc st)"
proof (induction xs arbitrary: st acc)
  case Nil
  then show ?case by simp
next
  case (Cons x xs)
  show ?case
    unfolding LoggedSet_elements.simps
    apply (rule after_and_then)
    using Cons.prems apply (simp add: growing_def)
    apply (simp add: Cons.IH [OF Cons.prems])
    done
qed

lemma growing_LoggedConfiguration_items:
  "growing w \<Longrightarrow> after (grows st) (LoggedConfiguration_items w name kvs acc st)"
proof (induction kvs arbitrary: st acc)
  case Nil
  then show ?case by simp
next
  case (Cons kv kvs)
  show ?case
    unfolding LoggedConfiguration_items.simps
    apply (rule after_and_then)
    using Cons.prems apply (simp add: growing_def)
    apply (simp add: Cons.IH [OF Cons.prems])
    done
qed

lemma growing_LoggedList_new: "growing w \<Longrightarrow> after (grows st) (LoggedList_new w name xs st)"
  unfolding LoggedList_new_def
  by (rule after_and_then) (simp_all add: growing_LoggedList_elements grows_alloc)

lemma growing_LoggedSet_new: "growing w \<Longrightarrow> after (grows st) (LoggedSet_new w name xs st)"
  unfolding LoggedSet_new_def
  by (rule after_and_then) (simp_all add: growing_LoggedSet_elements grows_alloc)

lemma growing_LoggedConfiguration_new:
  "growing w \<Longrightarrow> after (grows st) (LoggedConfiguration_new w name kvs st)"
  unfolding LoggedConfiguration_new_def
  by (rule after_and_then) (simp_all add: growing_LoggedConfiguration_items grows_alloc)

lemma growing_wrap_body: "growing w \<Longrightarrow> growing (wrap_body w)"
  unfolding growing_def [of "wrap_body w"] wrap_body_def
  by (auto split: pyval.split option.split obj.split
      simp: growing_LoggedList_new growing_LoggedSet_new growing_LoggedConfiguration_new)

lemma growing_wrap: "growing (wrap_logged_config_value n)"
  by (induction n) (simp_all add: growing_wrap_body, simp add: growing_def)

lemma wrap_grows: "after (grows st) (wrap_logged_config_value n cn v st)"
  using growing_wrap by (simp add: growing_def)

lemma grows_length: "grows st st' \<Longrightarrow> length (heap st) \<le> length (heap st')"
  by (simp add: grows_def prefix_length_le)

lemma and_then_Return:
  "and_then r f = Return y st' \<longleftrightarrow> (\<exists>x st1. r = Return x st1 \<and> f x st1 = Return y st')"
  by (cases r) simp_all


lemma and_then_OutOfFuel:
  "and_then r f = OutOfFuel \<longleftrightarrow> r = OutOfFuel \<or> (\<exists>x st1. r = Return x st1 \<and> f x st1 = OutOfFuel)"
  by (cases r) auto

lemma alloc_Return:
  "alloc ob st1 = Return r st' \<longleftrightarrow>
     r = VRef (length (heap st1)) \<and>
     st' = st1\<lparr>heap := heap st1 @ [ob], trace := trace st1 @ [Alloc (length (heap st1))]\<rparr>"
  by (auto simp: alloc_def)

lemma LoggedList_new_Return:
  assumes "growing w" "LoggedList_new w name xs st = Return r st'"
  shows "new_logged Sequence name st st' r"
proof -
  from assms(2) obtain ys st1 where
    1: "LoggedList_elements w name xs st = Return ys st1" and
    2: "alloc (LoggedList name ys name) st1 = Return r st'"
    by (auto simp: LoggedList_new_def and_then_Return)
  from growing_LoggedList_elements [OF assms(1), of st name xs] 1 have "grows st st1" by simp
  then have "length (heap st) \<le> length (heap st1)" by (rule grows_length)
  with 2 show ?thesis
    by (auto simp: alloc_Return new_logged_def lookup_def)
qed

lemma LoggedSet_new_Return:
  assumes "growing w" "LoggedSet_new w name xs st = Return r st'"
  shows "new_logged SetClass name st st' r"
proof -
  from assms(2) obtain ys st1 where
    1: "LoggedSet_elements w name xs [] st = Return ys st1" and
    2: "alloc (LoggedSet name ys name) st1 = Return r st'"
    by (auto simp: LoggedSet_new_def and_then_Return)
  from growing_LoggedSet_elements [OF assms(1), of st name xs "[]"] 1 have "grows st st1" by simp
  then have "length (heap st) \<le> length (heap st1)" by (rule grows_length)
  with 2 show ?thesis
    by (auto simp: alloc_Return new_logged_def lookup_def)
qed

lemma LoggedConfiguration_new_Return:
  assumes "growing w" "LoggedConfiguration_new w name kvs st = Return r st'"
  shows "new_logged Mapping name st st' r"
proof -
  from assms(2) obtain ys st1 where
    1: "LoggedConfiguration_items w name kvs [] st = Return ys st1" and
    2: "alloc (LoggedConfiguration name ys name) st1 = Return r st'"
    by (auto simp: LoggedConfiguration_new_def and_then_Return)
  from growing_LoggedConfiguration_items [OF assms(1), of st name kvs "[]"] 1 have "grows st st1" by simp
  then have "length (heap st) \<le> length (heap st1)" by (rule grows_length)
  with 2 show ?thesis
    by (auto simp: alloc_Return new_logged_def lookup_def)
qed

lemma wrap_Return_class:
  assumes "wrap_logged_config_value n cn v st = Return r st'"
  shows "case class_of st v of Some c \<Rightarrow> new_logged c cn st st' r | None \<Rightarrow> r = v \<and> st' = st"
proof (cases n)
  case 0
  with assms show ?thesis by simp
next
  case (Suc m)
  note g = growing_wrap [of m]
  from assms Suc have "wrap_body (wrap_logged_config_value m) cn v st = Return r st'" by simp
  then show ?thesis
    by (auto simp: wrap_body_def class_of_def split: pyval.splits option.splits obj.splits
        dest: LoggedList_new_Return [OF g] LoggedSet_new_Return [OF g] LoggedConfiguration_new_Return [OF g])
qed

lemma only_TypeError_simps [simp]:
  "only_TypeError OutOfFuel"
  "only_TypeError (Raise e st) = (e = TypeError)"
  "only_TypeError (Return x st)"
  by (simp_all add: only_TypeError_def)

lemma only_TypeError_and_then:
  "only_TypeError r \<Longrightarrow> (\<And>x st1. r = Return x st1 \<Longrightarrow> only_TypeError (f x st1))
     \<Longrightarrow> only_TypeError (and_then r f)"
  by (cases r) simp_all

lemma only_TypeError_alloc [simp]: "only_TypeError (alloc ob st)"
  by (simp add: alloc_def)

lemma only_TypeError_LoggedList_elements:
  "(\<And>cn v st. only_TypeError (w cn v st)) \<Longrightarrow> only_TypeError (LoggedList_elements w name xs st)"
  by (induction xs arbitrary: st) (auto intro!: only_TypeError_and_then)

lemma only_TypeError_LoggedSet_elements:
  "(\<And>cn v st. only_TypeError (w cn v st)) \<Longrightarrow> only_TypeError (LoggedSet_elements w name xs acc st)"
  by (induction xs arbitrary: st acc) (auto intro!: only_TypeError_and_then)

lemma only_TypeError_LoggedConfiguration_items:
  "(\<And>cn v st. only_TypeError (w cn v st)) \<Longrightarrow> only_TypeError (LoggedConfiguration_items w name kvs acc st)"
  by (induction kvs arbitrary: st acc) (auto intro!: only_TypeError_and_then)

lemma only_TypeError_wrap_body:
  "(\<And>cn v st. only_TypeError (w cn v st)) \<Longrightarrow> only_TypeError (wrap_body w cn v st)"
  by (auto simp: wrap_body_def LoggedList_new_def LoggedSet_new_def LoggedConfiguration_new_def
      split: pyval.split option.split obj.split
      intro!: only_TypeError_and_then only_TypeError_LoggedList_elements
        only_TypeError_LoggedSet_elements only_TypeError_LoggedConfiguration_items)

lemma only_TypeError_wrap: "only_TypeError (wrap_logged_config_value n cn v st)"
  by (induction n arbitrary: cn v st) (simp_all add: only_TypeError_wrap_body)

lemma depth_member: "x \<in> set xs \<Longrightarrow> depth x \<le> foldr max (map depth xs) 0"
  by (induction xs) auto

lemma depth_member_snd: "kv \<in> set kvs \<Longrightarrow> depth (snd kv) \<le> foldr max (map (\<lambda>kv. depth (snd kv)) kvs) 0"
  by (induction kvs) auto

lemma decides_LoggedList_elements:
  assumes "decides w m" "\<forall>x\<in>set xs. plain x \<and> depth x < m"
  shows "(list_all wrappable xs \<longrightarrow> (\<exists>ys st'. LoggedList_elements w name xs st = Return ys st')) \<and>
         (\<not> list_all wrappable xs \<longrightarrow> (\<exists>st'. LoggedList_elements w name xs st = Raise TypeError st'))"
  using assms(2)
proof (induction xs arbitrary: st)
  case Nil
  then show ?case by simp
next
  case (Cons x xs)
  from Cons.prems have px: "plain x" "depth x < m" by simp_all
  show ?case
  proof (cases "wrappable x")
    case True
    with assms(1) px obtain r st1 where r: "w (name @ ''[...]'') x st = Return r st1"
      unfolding decides_def by blast
    from Cons.IH [of st1] Cons.prems r True show ?thesis
      by auto
  next
    case False
    with assms(1) px obtain st1 where "w (name @ ''[...]'') x st = Raise TypeError st1"
      unfolding decides_def by blast
    with False show ?thesis by simp
  qed
qed

lemma decides_LoggedConfiguration_items:
  assumes "decides w m" "\<forall>kv\<in>set kvs. plain (snd kv) \<and> depth (snd kv) < m"
  shows "(list_all (\<lambda>kv. wrappable (snd kv)) kvs \<longrightarrow>
            (\<exists>ys st'. LoggedConfiguration_items w name kvs acc st = Return ys st')) \<and>
         (\<not> list_all (\<lambda>kv. wrappable (snd kv)) kvs \<longrightarrow>
            (\<exists>st'. LoggedConfiguration_items w name kvs acc st = Raise TypeError st'))"
  using assms(2)
proof (induction kvs arbitrary: st acc)
  case Nil
  then show ?case by simp
next
  case (Cons kv kvs)
  from Cons.prems have px: "plain (snd kv)" "depth (snd kv) < m" by simp_all
  show ?case
  proof (cases "wrappable (snd kv)")
    case True
    with assms(1) px obtain r st1 where r: "w (name @ ''.'' @ fst kv) (snd kv) st = Return r st1"
      unfolding decides_def by blast
    from Cons.IH [of "dict_set (fst kv) r acc" st1] Cons.prems r True show ?thesis
      by auto
  next
    case False
    with assms(1) px obtain st1 where "w (name @ ''.'' @ fst kv) (snd kv) st = Raise TypeError st1"
      unfolding decides_def by blast
    with False show ?thesis by simp
  qed
qed

lemma wrappable_primitive: "primitive v \<Longrightarrow> wrappable v"
  by (cases v) (simp_all add: primitive_def)

lemma hashable_primitive: "primitive v \<Longrightarrow> hashable v"
  by (cases v) (simp_all add: primitive_def)

lemma decides_LoggedSet_elements:
  assumes "decides w m" "\<forall>x\<in>set xs. plain x \<and> depth x < m"
  shows "(list_all primitive xs \<longrightarrow> (\<exists>ys st'. LoggedSet_elements w name xs acc st = Return ys st')) \<and>
         (\<not> list_all primitive xs \<longrightarrow> (\<exists>st'. LoggedSet_elements w name xs acc st = Raise TypeError st'))"
  using assms(2)
proof (induction xs arbitrary: st acc)
  case Nil
  then show ?case by simp
next
  case (Cons x xs)
  from Cons.prems have px: "plain x" "depth x < m" by simp_all
  show ?case
  proof (cases "wrappable x")
    case True
    with assms(1) px obtain r st1 where r: "w (name @ ''[...]'') x st = Return r st1"
      and p: "primitive x \<longrightarrow> r = x" and q: "\<not> primitive x \<longrightarrow> \<not> hashable r"
      unfolding decides_def by blast
    show ?thesis
    proof (cases "primitive x")
      case True
      with p have "r = x" by simp
      with Cons.IH [of "set_add x acc" st1] Cons.prems r True show ?thesis
        by (auto simp: hashable_primitive)
    next
      case False
      with q r show ?thesis by simp
    qed
  next
    case False
    then have np: "\<not> primitive x" using wrappable_primitive by blast
    from False assms(1) px obtain st1 where "w (name @ ''[...]'') x st = Raise TypeError st1"
      unfolding decides_def by blast
    with np show ?thesis by simp
  qed
qed

lemma alloc_is_ref: "\<exists>a st'. alloc ob st = Return (VRef a) st'"
  by (simp add: alloc_def)

lemma decides_LoggedList_new:
  assumes "decides w m" "\<forall>x\<in>set xs. plain x \<and> depth x < m"
  shows "(list_all wrappable xs \<longrightarrow> (\<exists>a st'. LoggedList_new w name xs st = Return (VRef a) st')) \<and>
         (\<not> list_all wrappable xs \<longrightarrow> (\<exists>st'. LoggedList_new w name xs st = Raise TypeError st'))"
  using decides_LoggedList_elements [OF assms, of name st] alloc_is_ref
  by (fastforce simp: LoggedList_new_def)

lemma decides_LoggedSet_new:
  assumes "decides w m" "\<forall>x\<in>set xs. plain x \<and> depth x < m"
  shows "(list_all primitive xs \<longrightarrow> (\<exists>a st'. LoggedSet_new w name xs st = Return (VRef a) st')) \<and>
         (\<not> list_all primitive xs \<longrightarrow> (\<exists>st'. LoggedSet_new w name xs st = Raise TypeError st'))"
  using decides_LoggedSet_elements [OF assms, of name "[]" st] alloc_is_ref
  by (fastforce simp: LoggedSet_new_def)

lemma decides_LoggedConfiguration_new:
  assumes "decides w m" "\<forall>kv\<in>set kvs. plain (snd kv) \<and> depth (snd kv) < m"
  shows "(list_all (\<lambda>kv. wrappable (snd kv)) kvs \<longrightarrow>
            (\<exists>a st'. LoggedConfiguration_new w name kvs st = Return (VRef a) st')) \<and>
         (\<not> list_all (\<lambda>kv. wrappable (snd kv)) kvs \<longrightarrow>
            (\<exists>st'. LoggedConfiguration_new w name kvs st = Raise TypeError st'))"
  using decides_LoggedConfiguration_items [OF assms, of name "[]" st] alloc_is_ref
  by (fastforce simp: LoggedConfiguration_new_def)

lemma plain_elements:
  "list_all plain xs \<Longrightarrow> foldr max (map depth xs) 0 < m \<Longrightarrow> \<forall>x\<in>set xs. plain x \<and> depth x < m"
  using depth_member by (fastforce simp: list_all_iff)

lemma plain_items:
  "list_all (\<lambda>kv. plain (snd kv)) kvs \<Longrightarrow> foldr max (map (\<lambda>kv. depth (snd kv)) kvs) 0 < m
     \<Longrightarrow> \<forall>kv\<in>set kvs. plain (snd kv) \<and> depth (snd kv) < m"
  using depth_member_snd by (fastforce simp: list_all_iff)

lemma decides_wrap_body:
  assumes "decides w m"
  shows "decides (wrap_body w) (Suc m)"
  unfolding decides_def
proof (intro allI impI)
  fix v cn st
  assume pv: "plain v \<and> depth v < Suc m"
  show "(wrappable v \<longrightarrow>
           (\<exists>r st'. wrap_body w cn v st = Return r st' \<and> (primitive v \<longrightarrow> r = v) \<and> (\<not> primitive v \<longrightarrow> \<not> hashable r))) \<and>
        (\<not> wrappable v \<longrightarrow> (\<exists>st'. wrap_body w cn v st = Raise TypeError st'))"
  proof (cases v)
    case (VList xs)
    with pv have "\<forall>x\<in>set xs. plain x \<and> depth x < m" using plain_elements [of xs m] by simp
    from decides_LoggedList_new [OF assms this, of cn st] VList show ?thesis
      by (auto simp: wrap_body_def primitive_def)
  next
    case (VTuple xs)
    with pv have "\<forall>x\<in>set xs. plain x \<and> depth x < m" using plain_elements [of xs m] by simp
    from decides_LoggedList_new [OF assms this, of cn st] VTuple show ?thesis
      by (auto simp: wrap_body_def primitive_def)
  next
    case (VSet xs)
    with pv have "\<forall>x\<in>set xs. plain x \<and> depth x < m" using plain_elements [of xs m] by simp
    from decides_LoggedSet_new [OF assms this, of cn st] VSet show ?thesis
      by (auto simp: wrap_body_def primitive_def)
  next
    case (VDict kvs)
    with pv have "\<forall>kv\<in>set kvs. plain (snd kv) \<and> depth (snd kv) < m" using plain_items [of kvs m] by simp
    from decides_LoggedConfiguration_new [OF assms this, of cn st] VDict show ?thesis
      by (auto simp: wrap_body_def primitive_def)
  qed (use pv in \<open>simp_all add: wrap_body_def primitive_def\<close>)
qed

lemma decides_wrap: "decides (wrap_logged_config_value n) n"
proof (induction n)
  case 0
  show ?case by (simp add: decides_def)
next
  case (Suc n)
  then show ?case by (simp add: decides_wrap_body)
qed

lemma wrap_plain_returns:
  "plain v \<Longrightarrow> depth v < n \<Longrightarrow> wrappable v \<Longrightarrow> \<exists>r st'. wrap_logged_config_value n cn v st = Return r st'"
  using decides_wrap [of n] unfolding decides_def by blast

lemma wrap_plain_raises:
  "plain v \<Longrightarrow> depth v < n \<Longrightarrow> \<not> wrappable v \<Longrightarrow> \<exists>st'. wrap_logged_config_value n cn v st = Raise TypeError st'"
  using decides_wrap [of n] unfolding decides_def by blast

lemma wrap_plain_finishes:
  "plain v \<Longrightarrow> depth v < n \<Longrightarrow> wrap_logged_config_value n cn v st \<noteq> OutOfFuel"
  using wrap_plain_returns [of v n cn st] wrap_plain_raises [of v n cn st] by (cases "wrappable v") auto

lemma map_of_replace:
  "k \<in> fst ` set kvs \<Longrightarrow> map_of (map (\<lambda>p. if fst p = k then (k, v) else p) kvs) k = Some v"
  by (induction kvs) auto

lemma map_of_append_new: "k \<notin> fst ` set kvs \<Longrightarrow> map_of (kvs @ [(k, v)]) k = Some v"
  by (induction kvs) auto

lemma map_of_dict_set: "map_of (dict_set k v kvs) k = Some v"
  by (simp add: dict_set_def map_of_replace map_of_append_new del: map_of_append)

lemma filter_info_allocs: "list_all is_alloc es \<Longrightarrow> filter is_info es = []"
  by (induction es) (auto simp: is_alloc_def is_info_def split: event.splits)

lemma grows_log_of: "grows st st' \<Longrightarrow> log_of st' = log_of st"
  by (auto simp: grows_def log_of_def prefix_def filter_info_allocs)

lemma grows_lookup: "grows st st' \<Longrightarrow> lookup st a = Some ob \<Longrightarrow> lookup st' a = Some ob"
  by (auto simp: grows_def lookup_def prefix_def nth_append split: if_splits)

lemma log_of_store [simp]: "log_of (store a ob st) = log_of st"
  by (simp add: log_of_def store_def is_info_def)

lemma log_of_info [simp]: "log_of (info c t args st) = log_of st @ [Info c t args]"
  by (simp add: log_of_def info_def is_info_def)

lemma lookup_info [simp]: "lookup (info c t args st) a = lookup st a"
  by (simp add: lookup_def info_def)

lemma lookup_store_same: "lookup st a = Some ob \<Longrightarrow> lookup (store a ob' st) a = Some ob'"
  by (auto simp: lookup_def store_def split: if_splits)

lemma lookup_store_other: "a \<noteq> b \<Longrightarrow> lookup (store a ob' st) b = lookup st b"
  by (auto simp: lookup_def store_def)

lemma wrap_Return_grows:
  "wrap_logged_config_value n cn v st = Return r st' \<Longrightarrow> grows st st'"
  using wrap_grows [of st n cn v] by simp


lemma LoggedConfiguration_setitem_effect:
  assumes "lookup st self = Some (LoggedConfiguration name data logger)"
    and "wrap_logged_config_value n (name @ ''.'' @ key) val
           (info logger Setting [VStr name, VStr key, val] st) = Return v st1"
  shows "\<exists>st'. LoggedConfiguration_setitem n self key val st = Return VNone st' \<and>
           log_of st' = log_of st @ [Info logger Setting [VStr name, VStr key, val]] \<and>
           lookup st' self = Some (LoggedConfiguration name (dict_set key v data) logger)"
proof -
  let ?st0 = "info logger Setting [VStr name, VStr key, val] st"
  from assms(2) have g: "grows ?st0 st1" by (rule wrap_Return_grows)
  from assms(1) have "lookup ?st0 self = Some (LoggedConfiguration name data logger)" by simp
  with g have l: "lookup st1 self = Some (LoggedConfiguration name data logger)" by (rule grows_lookup)
  from g have "log_of st1 = log_of st @ [Info logger Setting [VStr name, VStr key, val]]"
    by (simp add: grows_log_of)
  with assms l show ?thesis
    by (simp add: LoggedConfiguration_setitem_def lookup_store_same)
qed

lemma quiet_refl [simp]: "quiet st st"
  by (simp add: quiet_def)

lemma quiet_trans: "quiet st1 st2 \<Longrightarrow> quiet st2 st3 \<Longrightarrow> quiet st1 st3"
  by (auto simp: quiet_def prefix_def)

lemma grows_quiet: "grows st st' \<Longrightarrow> quiet st st'"
  by (auto simp: grows_def quiet_def prefix_def list_all_iff is_alloc_def is_info_def split: event.splits)

lemma quiet_store [simp]: "quiet st (store a ob st)"
  by (simp add: quiet_def store_def is_info_def)

lemma quiet_store_trans: "quiet st st1 \<Longrightarrow> quiet st (store a ob st1)"
  using quiet_trans quiet_store by blast

lemma after_mono: "after P r \<Longrightarrow> (\<And>s. P s \<Longrightarrow> Q s) \<Longrightarrow> after Q r"
  by (cases r) simp_all

lemma after_quiet_and_then:
  assumes "after (quiet st) r"
    and "\<And>x st1. r = Return x st1 \<Longrightarrow> after (quiet st1) (f x st1)"
  shows "after (quiet st) (and_then r f)"
proof (cases r)
  case (Return x st1)
  with assms have "quiet st st1" "after (quiet st1) (f x st1)" by simp_all
  then show ?thesis using Return
    by (cases "f x st1") (auto intro: quiet_trans)
qed (use assms in simp_all)

lemma wrap_quiet: "after (quiet st) (wrap_logged_config_value n cn v st)"
  using wrap_grows [of st n cn v] by (rule after_mono) (rule grows_quiet)

lemma LoggedList_extend_loop_quiet:
  "after (quiet st) (LoggedList_extend_loop (wrap_logged_config_value n) self xs st)"
proof (induction xs arbitrary: st)
  case Nil
  show ?case by simp
next
  case (Cons x xs)
  show ?case
  proof (cases "lookup st self")
    case None
    then show ?thesis by simp
  next
    case (Some ob)
    show ?thesis
    proof (cases ob)
      case (LoggedList name items logger)
      have "after (quiet st)
              (and_then (wrap_logged_config_value n (name @ ''[...]'') x st)
                 (\<lambda>v st'. LoggedList_extend_loop (wrap_logged_config_value n) self xs
                    (store self (LoggedList name (items @ [v]) logger) st')))"
      proof (rule after_quiet_and_then [OF wrap_quiet])
        fix v st1
        show "after (quiet st1) (LoggedList_extend_loop (wrap_logged_config_value n) self xs
                (store self (LoggedList name (items @ [v]) logger) st1))"
          using Cons.IH [of "store self (LoggedList name (items @ [v]) logger) st1"]
          by (rule after_mono) (rule quiet_trans [OF quiet_store])
      qed
      with Some LoggedList show ?thesis by simp
    qed (use Some in simp_all)
  qed
qed

lemma invoke_quiet:
  assumes "lookup st self = Some ob" "class_of_obj ob = receiver c"
  shows "after (quiet (info (logger_of ob) (template c) (VStr (name_of ob) # arguments c) st))
           (invoke eq n self c st)"
proof (cases c)
  case (SetItem key val)
  with assms show ?thesis
    by (auto simp: class_of_obj_def name_of_def logger_of_def LoggedConfiguration_setitem_def
        split: obj.splits intro!: after_quiet_and_then wrap_quiet)
next
  case (DelItem key)
  with assms show ?thesis
    by (auto simp: class_of_obj_def name_of_def logger_of_def LoggedConfiguration_delitem_def Let_def
        split: obj.splits)
next
  case (ListAppend val)
  with assms show ?thesis
    by (auto simp: class_of_obj_def name_of_def logger_of_def LoggedList_append_def
        split: obj.splits intro!: after_quiet_and_then wrap_quiet)
next
  case (ListInsert index val)
  with assms show ?thesis
    by (auto simp: class_of_obj_def name_of_def logger_of_def LoggedList_insert_def
        split: obj.splits sum.splits intro!: after_quiet_and_then wrap_quiet)
next
  case (ListRemove val)
  with assms show ?thesis
    by (auto simp: class_of_obj_def name_of_def logger_of_def LoggedList_remove_def Let_def
        split: obj.splits sum.splits)
next
  case (ListPop index)
  with assms show ?thesis
    by (auto simp: class_of_obj_def name_of_def logger_of_def LoggedList_pop_def Let_def
        split: obj.splits sum.splits)
next
  case ListClear
  with assms show ?thesis
    by (auto simp: class_of_obj_def name_of_def logger_of_def LoggedList_clear_def
        split: obj.splits)
next
  case (ListExtend iterable)
  with assms show ?thesis
    by (auto simp: class_of_obj_def name_of_def logger_of_def LoggedList_extend_def Let_def
        LoggedList_extend_loop_quiet split: obj.splits option.splits)
next
  case (SetAdd val)
  with assms show ?thesis
    by (auto simp: class_of_obj_def name_of_def logger_of_def LoggedSet_add_def Let_def
        split: obj.splits)
next
  case SetClear
  with assms show ?thesis
    by (auto simp: class_of_obj_def name_of_def logger_of_def LoggedSet_clear_def
        split: obj.splits)
next
  case (SetDifferenceUpdate val)
  with assms show ?thesis
    by (auto simp: class_of_obj_def name_of_def logger_of_def LoggedSet_difference_update_def Let_def
        split: obj.splits option.splits prod.splits)
next
  case (SetDiscard val)
  with assms show ?thesis
    by (auto simp: class_of_obj_def name_of_def logger_of_def LoggedSet_discard_def Let_def
        split: obj.splits sum.splits)
next
  case (SetPop val)
  with assms show ?thesis
    by (auto simp: class_of_obj_def name_of_def logger_of_def LoggedSet_pop_def Let_def
        split: obj.splits sum.splits)
next
  case (SetRemove val)
  with assms show ?thesis
    by (auto simp: class_of_obj_def name_of_def logger_of_def LoggedSet_remove_def Let_def
        split: obj.splits sum.splits)
next
  case (SetSymmetricDifferenceUpdate val)
  with assms show ?thesis
    by (auto simp: class_of_obj_def name_of_def logger_of_def LoggedSet_symmetric_difference_update_def
        Let_def split: obj.splits option.splits sum.splits)
next
  case (SetUpdate val)
  with assms show ?thesis
    by (auto simp: class_of_obj_def name_of_def logger_of_def LoggedSet_update_def Let_def
        split: obj.splits option.splits prod.splits)
qed

lemma heap_info [simp]: "heap (info c t args st) = heap st"
  by (simp add: info_def)














lemma iterate_plain:
  assumes "plain v" "depth v < n" "iterate st v = Some xs"
  shows "\<forall>x\<in>set xs. plain x \<and> depth x < n"
proof (cases v)
  case (VList ys)
  with assms have "\<forall>x\<in>set ys. plain x \<and> depth x < n - 1" using plain_elements [of ys "n - 1"] by simp
  with assms VList show ?thesis by (fastforce simp: iterate_def)
next
  case (VTuple ys)
  with assms have "\<forall>x\<in>set ys. plain x \<and> depth x < n - 1" using plain_elements [of ys "n - 1"] by simp
  with assms VTuple show ?thesis by (fastforce simp: iterate_def)
next
  case (VSet ys)
  with assms have "\<forall>x\<in>set ys. plain x \<and> depth x < n - 1" using plain_elements [of ys "n - 1"] by simp
  with assms VSet show ?thesis by (fastforce simp: iterate_def)
qed (use assms in \<open>auto simp: iterate_def\<close>)

lemma LoggedList_extend_loop_finishes:
  assumes "\<forall>x\<in>set xs. plain x \<and> depth x < n"
  shows "LoggedList_extend_loop (wrap_logged_config_value n) self xs st \<noteq> OutOfFuel"
  using assms
proof (induction xs arbitrary: st)
  case Nil
  show ?case by simp
next
  case (Cons x xs)
  show ?case
  proof (cases "lookup st self")
    case None
    then show ?thesis by simp
  next
    case (Some ob)
    show ?thesis
    proof (cases ob)
      case (LoggedList name items logger)
      from Cons.prems have "wrap_logged_config_value n (name @ ''[...]'') x st \<noteq> OutOfFuel"
        by (simp add: wrap_plain_finishes)
      moreover from Cons.prems have "\<forall>x\<in>set xs. plain x \<and> depth x < n" by simp
      ultimately show ?thesis using Some LoggedList Cons.IH
        by (simp add: and_then_OutOfFuel)
    qed (use Some in simp_all)
  qed
qed

lemma invoke_finishes:
  assumes "list_all plain (arguments c)" "list_all (\<lambda>v. depth v < n) (arguments c)"
  shows "invoke eq n self c st \<noteq> OutOfFuel"
proof (cases c)
  case (SetItem key val)
  with assms show ?thesis
    by (auto simp: LoggedConfiguration_setitem_def and_then_OutOfFuel wrap_plain_finishes
        split: option.splits obj.splits)
next
  case (ListAppend val)
  with assms show ?thesis
    by (auto simp: LoggedList_append_def and_then_OutOfFuel wrap_plain_finishes
        split: option.splits obj.splits)
next
  case (ListInsert index val)
  with assms show ?thesis
    by (auto simp: LoggedList_insert_def and_then_OutOfFuel wrap_plain_finishes
        split: option.splits obj.splits sum.splits)
next
  case (ListExtend iterable)
  with assms have p: "plain iterable" "depth iterable < n" by simp_all
  then have "iterable \<noteq> VRef self" by auto
  with ListExtend p show ?thesis
    by (auto simp: LoggedList_extend_def Let_def split: option.splits obj.splits
        dest!: iterate_plain [OF p] LoggedList_extend_loop_finishes)
qed (auto simp: LoggedConfiguration_delitem_def LoggedList_clear_def
        LoggedList_remove_def LoggedList_pop_def LoggedSet_symmetric_difference_update_def
        LoggedSet_add_def LoggedSet_clear_def LoggedSet_discard_def LoggedSet_pop_def LoggedSet_remove_def
        LoggedSet_update_def LoggedSet_difference_update_def
        Let_def split: obj.splits sum.splits if_splits option.splits prod.splits)

lemma after_same_and_then:
  "after (\<lambda>s. s = st) r \<Longrightarrow> (\<And>x. after (\<lambda>s. s = st) (f x st)) \<Longrightarrow> after (\<lambda>s. s = st) (and_then r f)"
  by (cases r) simp_all

lemma unwrap_items_same:
  "(\<And>v st. after (\<lambda>s. s = st) (u v st)) \<Longrightarrow> after (\<lambda>s. s = st) (unwrap_items u kvs acc st)"
  by (induction kvs arbitrary: acc) (auto intro!: after_same_and_then)

lemma unwrap_elements_same:
  "(\<And>v st. after (\<lambda>s. s = st) (u v st)) \<Longrightarrow> after (\<lambda>s. s = st) (unwrap_elements u xs st)"
  by (induction xs) (auto intro!: after_same_and_then)

lemma unwrap_set_elements_same:
  "(\<And>v st. after (\<lambda>s. s = st) (u v st)) \<Longrightarrow> after (\<lambda>s. s = st) (unwrap_set_elements u xs acc st)"
  by (induction xs arbitrary: acc) (auto intro!: after_same_and_then)

lemma unwrap_body_same:
  "(\<And>v st. after (\<lambda>s. s = st) (u v st)) \<Longrightarrow> after (\<lambda>s. s = st) (unwrap_body u r v st)"
  by (auto simp: unwrap_body_def split: pyval.split option.split obj.split
      intro!: after_same_and_then unwrap_items_same unwrap_elements_same unwrap_set_elements_same)

lemma unwrap_same: "after (\<lambda>s. s = st) (unwrap n r v st)"
  by (induction n arbitrary: v st) (simp_all add: unwrap_body_same)


lemma mutating_calls_log_once:
  assumes "lookup st self = Some ob" "class_of_obj ob = receiver c"
  shows "after (quiet (info (logger_of ob) (template c) (VStr (name_of ob) # arguments c) st))
           (invoke eq n self c st) \<and>
         (list_all plain (arguments c) \<and> list_all (\<lambda>v. depth v < n) (arguments c) \<longrightarrow>
            invoke eq n self c st \<noteq> OutOfFuel) \<and>
         after (\<lambda>s. s = st) (LoggedConfiguration_getitem self key st) \<and>
         after (\<lambda>s. s = st) (LoggedConfiguration_getattr self key st) \<and>
         after (\<lambda>s. s = st) (LoggedConfiguration_getattribute inherited self key st) \<and>
         after (\<lambda>s. s = st) (LoggedConfiguration_contains self key st) \<and>
         after (\<lambda>s. s = st) (LoggedConfiguration_len self st) \<and>
         after (\<lambda>s. s = st) (LoggedConfiguration_iter self st) \<and>
         after (\<lambda>s. s = st) (to_dict n self st)"
proof (intro conjI impI)
  show "after (quiet (info (logger_of ob) (template c) (VStr (name_of ob) # arguments c) st))
           (invoke eq n self c st)"
    using assms by (rule invoke_quiet)
  show "invoke eq n self c st \<noteq> OutOfFuel"
    if "list_all plain (arguments c) \<and> list_all (\<lambda>v. depth v < n) (arguments c)"
    using that by (simp add: invoke_finishes)
  show "after (\<lambda>s. s = st) (LoggedConfiguration_getitem self key st)"
    by (simp add: LoggedConfiguration_getitem_def split: option.split obj.split)
  show "after (\<lambda>s. s = st) (LoggedConfiguration_getattr self key st)"
    by (simp add: LoggedConfiguration_getattr_def split: option.split obj.split)
  show "after (\<lambda>s. s = st) (LoggedConfiguration_getattribute inherited self key st)"
    by (simp add: LoggedConfiguration_getattribute_def LoggedConfiguration_getattr_def
        split: option.split obj.split)
  show "after (\<lambda>s. s = st) (LoggedConfiguration_contains self key st)"
    by (simp add: LoggedConfiguration_contains_def split: option.split obj.split)
  show "after (\<lambda>s. s = st) (LoggedConfiguration_len self st)"
    by (simp add: LoggedConfiguration_len_def split: option.split obj.split)
  show "after (\<lambda>s. s = st) (LoggedConfiguration_iter self st)"
    by (simp add: LoggedConfiguration_iter_def split: option.split obj.split)
  show "after (\<lambda>s. s = st) (to_dict n self st)"
    by (simp add: to_dict_def unwrap_same)
qed




lemma grows_prefix: "grows st st' \<Longrightarrow> prefix (heap st) (heap st')"
  by (simp add: grows_def)















lemma good_prefix: "good d h v \<Longrightarrow> prefix h h' \<Longrightarrow> good d h' v"
proof (induction d arbitrary: v)
  case 0
  then show ?case by simp
next
  case (Suc d)
  show ?case
  proof (cases v)
    case (VRef a)
    with Suc.prems have a: "a < length h" by simp
    with Suc.prems(2) have eq: "h' ! a = h ! a" and a': "a < length h'"
      by (auto simp: prefix_def nth_append)
    from Suc.prems(1) VRef a eq a' Suc.IH [OF _ Suc.prems(2)] show ?thesis
      by (auto simp: list_all_iff split: obj.splits)
  qed (use Suc.prems in simp_all)
qed

lemma good_grows: "good d (heap st) v \<Longrightarrow> grows st st' \<Longrightarrow> good d (heap st') v"
  using good_prefix grows_prefix by blast

lemma all_good_grows: "list_all (good d (heap st)) xs \<Longrightarrow> grows st st' \<Longrightarrow> list_all (good d (heap st')) xs"
  using good_grows by (auto simp: list_all_iff)

lemma good_primitive: "primitive v \<Longrightarrow> good (Suc d) h v"
  by (cases v) (simp_all add: primitive_def)

lemma good_not_plain_container: "good d h v \<Longrightarrow> \<not> plain_container v"
  by (cases d; cases v) (simp_all add: plain_container_def)

lemma good_positive: "good d h v \<Longrightarrow> 0 < d"
  by (cases d) simp_all

lemma keeps_good_LoggedList_elements:
  assumes "keeps_good w" "growing w"
  shows "LoggedList_elements w name xs st = Return ys st' \<Longrightarrow> list_all (good d (heap st)) xs
           \<Longrightarrow> list_all (good d (heap st')) ys"
proof (induction xs arbitrary: st ys)
  case Nil
  then show ?case by simp
next
  case (Cons x xs)
  from Cons.prems(1) obtain r st1 ys' where
    r: "w (name @ ''[...]'') x st = Return r st1" and
    ys': "LoggedList_elements w name xs st1 = Return ys' st'" and ys: "ys = r # ys'"
    by (auto simp: and_then_Return)
  from growing_LoggedList_elements [OF assms(2), of st1 name xs] ys' have g2: "grows st1 st'" by simp
  from assms(2) r have g1: "grows st st1" unfolding growing_def by (metis after_simps(3))
  from assms(1) r Cons.prems(2) have "good d (heap st1) r" unfolding keeps_good_def by auto
  then have "good d (heap st') r" using g2 by (rule good_grows)
  moreover from Cons.prems(2) g1 have "list_all (good d (heap st1)) xs"
    by (auto intro: all_good_grows)
  from Cons.IH [OF ys' this] have "list_all (good d (heap st')) ys'" .
  ultimately show ?case using ys by simp
qed

lemma growing_Return: "growing w \<Longrightarrow> w cn v st = Return r st' \<Longrightarrow> grows st st'"
  unfolding growing_def by (metis after_simps(3))

lemma all_snd_dict_set:
  "P v \<Longrightarrow> list_all (\<lambda>kv. P (snd kv)) kvs \<Longrightarrow> list_all (\<lambda>kv. P (snd kv)) (dict_set k v kvs)"
  by (auto simp: dict_set_def list_all_iff)

lemma all_set_add: "P x \<Longrightarrow> list_all P xs \<Longrightarrow> list_all P (set_add x xs)"
  by (auto simp: set_add_def)

lemma keeps_good_LoggedConfiguration_items:
  assumes "keeps_good w" "growing w"
  shows "LoggedConfiguration_items w name kvs acc st = Return data st'
           \<Longrightarrow> list_all (\<lambda>kv. good d (heap st) (snd kv)) kvs
           \<Longrightarrow> list_all (\<lambda>kv. good d (heap st) (snd kv)) acc
           \<Longrightarrow> list_all (\<lambda>kv. good d (heap st') (snd kv)) data"
proof (induction kvs arbitrary: st acc)
  case Nil
  then show ?case by simp
next
  case (Cons kv kvs)
  from Cons.prems(1) obtain r st1 where
    r: "w (name @ ''.'' @ fst kv) (snd kv) st = Return r st1" and
    rest: "LoggedConfiguration_items w name kvs (dict_set (fst kv) r acc) st1 = Return data st'"
    by (auto simp: and_then_Return)
  from growing_Return [OF assms(2) r] have g1: "grows st st1" .
  from assms(1) r Cons.prems(2) have gr: "good d (heap st1) r" unfolding keeps_good_def by auto
  from Cons.prems(2) g1 have 1: "list_all (\<lambda>kv. good d (heap st1) (snd kv)) kvs"
    by (auto simp: list_all_iff intro: good_grows)
  from Cons.prems(3) g1 have "list_all (\<lambda>kv. good d (heap st1) (snd kv)) acc"
    by (auto simp: list_all_iff intro: good_grows)
  with gr have 2: "list_all (\<lambda>kv. good d (heap st1) (snd kv)) (dict_set (fst kv) r acc)"
    by (rule all_snd_dict_set)
  from Cons.IH [OF rest 1 2] show ?case .
qed

lemma keeps_good_LoggedSet_elements:
  assumes "keeps_good w" "growing w"
  shows "LoggedSet_elements w name xs acc st = Return ys st'
           \<Longrightarrow> list_all (\<lambda>x. primitive x \<and> good d (heap st) x) xs
           \<Longrightarrow> list_all (\<lambda>x. primitive x \<and> good d (heap st) x) acc
           \<Longrightarrow> list_all (\<lambda>x. primitive x \<and> good d (heap st') x) ys"
proof (induction xs arbitrary: st acc)
  case Nil
  then show ?case by simp
next
  case (Cons x xs)
  from Cons.prems(1) obtain r st1 where
    r: "w (name @ ''[...]'') x st = Return r st1" and
    rest: "LoggedSet_elements w name xs (set_add r acc) st1 = Return ys st'"
    by (auto simp: and_then_Return split: if_splits)
  from growing_Return [OF assms(2) r] have g1: "grows st st1" .
  from Cons.prems(2) have px: "primitive x" "good d (heap st) x" by simp_all
  from assms(1) r have "(primitive x \<longrightarrow> r = x) \<and> (good d (heap st) x \<longrightarrow> good d (heap st1) r)"
    unfolding keeps_good_def by blast
  with px have gr: "primitive r \<and> good d (heap st1) r" by blast
  from Cons.prems(2) g1 have 1: "list_all (\<lambda>x. primitive x \<and> good d (heap st1) x) xs"
    by (auto simp: list_all_iff intro: good_grows)
  from Cons.prems(3) g1 have "list_all (\<lambda>x. primitive x \<and> good d (heap st1) x) acc"
    by (auto simp: list_all_iff intro: good_grows)
  with gr have 2: "list_all (\<lambda>x. primitive x \<and> good d (heap st1) x) (set_add r acc)"
    by (rule all_set_add)
  from Cons.IH [OF rest 1 2] show ?case .
qed

lemma good_alloc:
  assumes "alloc ob st1 = Return r st'"
    and "case ob of
           LoggedConfiguration _ kvs _ \<Rightarrow> list_all (\<lambda>kv. good d (heap st1) (snd kv)) kvs
         | LoggedList _ xs _ \<Rightarrow> list_all (good d (heap st1)) xs
         | LoggedSet _ xs _ \<Rightarrow> list_all (\<lambda>x. primitive x \<and> good d (heap st1) x) xs"
  shows "good (Suc d) (heap st') r"
proof -
  from assms(1) have r: "r = VRef (length (heap st1))" and h: "heap st' = heap st1 @ [ob]"
    by (auto simp: alloc_def)
  have p: "prefix (heap st1) (heap st')" using h by simp
  from assms(2) show ?thesis unfolding r h
    by (cases ob) (auto simp: list_all_iff intro: good_prefix [OF _ prefix_prefix [OF prefix_order.refl]])
qed

lemma keeps_good_LoggedList_new:
  assumes "keeps_good w" "growing w" "LoggedList_new w name xs st = Return r st'"
    and "list_all (good d (heap st)) xs"
  shows "good (Suc d) (heap st') r"
proof -
  from assms(3) obtain ys st1 where
    ys: "LoggedList_elements w name xs st = Return ys st1" and
    a: "alloc (LoggedList name ys name) st1 = Return r st'"
    by (auto simp: LoggedList_new_def and_then_Return)
  from keeps_good_LoggedList_elements [OF assms(1,2) ys assms(4)] show ?thesis
    by (intro good_alloc [OF a]) simp
qed

lemma keeps_good_LoggedSet_new:
  assumes "keeps_good w" "growing w" "LoggedSet_new w name xs st = Return r st'"
    and "list_all (\<lambda>x. primitive x \<and> good d (heap st) x) xs"
  shows "good (Suc d) (heap st') r"
proof -
  from assms(3) obtain ys st1 where
    ys: "LoggedSet_elements w name xs [] st = Return ys st1" and
    a: "alloc (LoggedSet name ys name) st1 = Return r st'"
    by (auto simp: LoggedSet_new_def and_then_Return)
  from keeps_good_LoggedSet_elements [OF assms(1,2) ys assms(4)] show ?thesis
    by (intro good_alloc [OF a]) simp
qed

lemma keeps_good_LoggedConfiguration_new:
  assumes "keeps_good w" "growing w" "LoggedConfiguration_new w name kvs st = Return r st'"
    and "list_all (\<lambda>kv. good d (heap st) (snd kv)) kvs"
  shows "good (Suc d) (heap st') r"
proof -
  from assms(3) obtain ys st1 where
    ys: "LoggedConfiguration_items w name kvs [] st = Return ys st1" and
    a: "alloc (LoggedConfiguration name ys name) st1 = Return r st'"
    by (auto simp: LoggedConfiguration_new_def and_then_Return)
  from keeps_good_LoggedConfiguration_items [OF assms(1,2) ys assms(4)] show ?thesis
    by (intro good_alloc [OF a]) simp
qed

lemma keeps_good_wrap_body:
  assumes "keeps_good w" "growing w"
  shows "keeps_good (wrap_body w)"
  unfolding keeps_good_def
proof (intro allI impI conjI)
  fix cn v r and st st' :: state
  assume ret: "wrap_body w cn v st = Return r st'"
  show "r = v" if "primitive v"
    using that ret by (cases v) (simp_all add: primitive_def wrap_body_def)
  fix d
  assume g: "good d (heap st) v"
  show "good d (heap st') r"
  proof (cases d)
    case 0
    with g show ?thesis by simp
  next
    case (Suc d')
    show ?thesis
    proof (cases v)
      case (VRef a)
      with g Suc have a: "a < length (heap st)" by simp
      then have l: "lookup st a = Some (heap st ! a)" by (simp add: lookup_def)
      show ?thesis
      proof (cases "heap st ! a")
        case (LoggedConfiguration nm kvs lg)
        with ret VRef l g show ?thesis by (simp add: wrap_body_def)
      next
        case (LoggedList nm xs lg)
        with ret VRef l have "LoggedList_new w cn xs st = Return r st'" by (simp add: wrap_body_def)
        moreover from g Suc VRef LoggedList have "list_all (good d' (heap st)) xs" by simp
        ultimately show ?thesis using keeps_good_LoggedList_new [OF assms] Suc by blast
      next
        case (LoggedSet nm xs lg)
        with ret VRef l have "LoggedSet_new w cn xs st = Return r st'" by (simp add: wrap_body_def)
        moreover from g Suc VRef LoggedSet have "list_all (\<lambda>x. primitive x \<and> good d' (heap st) x) xs" by simp
        ultimately show ?thesis using keeps_good_LoggedSet_new [OF assms] Suc by blast
      qed
    qed (use g ret Suc in \<open>auto simp: wrap_body_def\<close>)
  qed
qed

lemma keeps_good_wrap: "keeps_good (wrap_logged_config_value n)"
proof (induction n)
  case 0
  show ?case by (simp add: keeps_good_def)
next
  case (Suc n)
  then show ?case using growing_wrap [of n] by (simp add: keeps_good_wrap_body)
qed

lemma returns_good_LoggedList_elements:
  assumes "returns_good w n" "growing w" "d \<le> n"
  shows "list_all (good d (heap st)) xs \<Longrightarrow> \<exists>ys st'. LoggedList_elements w name xs st = Return ys st'"
proof (induction xs arbitrary: st)
  case Nil
  show ?case by simp
next
  case (Cons x xs)
  from Cons.prems have "good d (heap st) x" by simp
  with assms(1,3) obtain r st1 where r: "w (name @ ''[...]'') x st = Return r st1"
    unfolding returns_good_def by blast
  from growing_Return [OF assms(2) r] Cons.prems have "list_all (good d (heap st1)) xs"
    by (auto intro: all_good_grows)
  from Cons.IH [OF this] r show ?case by auto
qed

lemma returns_good_LoggedConfiguration_items:
  assumes "returns_good w n" "growing w" "d \<le> n"
  shows "list_all (\<lambda>kv. good d (heap st) (snd kv)) kvs
           \<Longrightarrow> \<exists>ys st'. LoggedConfiguration_items w name kvs acc st = Return ys st'"
proof (induction kvs arbitrary: st acc)
  case Nil
  show ?case by simp
next
  case (Cons kv kvs)
  from Cons.prems have "good d (heap st) (snd kv)" by simp
  with assms(1,3) obtain r st1 where r: "w (name @ ''.'' @ fst kv) (snd kv) st = Return r st1"
    unfolding returns_good_def by blast
  from growing_Return [OF assms(2) r] Cons.prems have "list_all (\<lambda>kv. good d (heap st1) (snd kv)) kvs"
    by (auto simp: list_all_iff intro: good_grows)
  from Cons.IH [OF this] r show ?case by auto
qed

lemma returns_good_LoggedSet_elements:
  assumes "returns_good w n" "growing w" "keeps_good w" "d \<le> n"
  shows "list_all (\<lambda>x. primitive x \<and> good d (heap st) x) xs
           \<Longrightarrow> \<exists>ys st'. LoggedSet_elements w name xs acc st = Return ys st'"
proof (induction xs arbitrary: st acc)
  case Nil
  show ?case by simp
next
  case (Cons x xs)
  from Cons.prems have px: "primitive x" "good d (heap st) x" by simp_all
  with assms(1,4) obtain r st1 where r: "w (name @ ''[...]'') x st = Return r st1"
    unfolding returns_good_def by metis
  with assms(3) px have rx: "r = x" unfolding keeps_good_def by blast
  from growing_Return [OF assms(2) r] Cons.prems have "list_all (\<lambda>x. primitive x \<and> good d (heap st1) x) xs"
    by (auto simp: list_all_iff intro: good_grows)
  from Cons.IH [OF this] r rx px show ?case by (auto simp: hashable_primitive)
qed

lemma returns_good_wrap_body:
  assumes "returns_good w n" "growing w" "keeps_good w"
  shows "returns_good (wrap_body w) (Suc n)"
  unfolding returns_good_def
proof (intro allI impI)
  fix cn v d and st :: state
  assume "good d (heap st) v \<and> d \<le> Suc n"
  then obtain d' where d: "d = Suc d'" "d' \<le> n" and g: "good (Suc d') (heap st) v"
    by (cases d) auto
  show "\<exists>r st'. wrap_body w cn v st = Return r st'"
  proof (cases v)
    case (VRef a)
    with g have a: "a < length (heap st)" by simp
    then have l: "lookup st a = Some (heap st ! a)" by (simp add: lookup_def)
    show ?thesis
    proof (cases "heap st ! a")
      case (LoggedConfiguration nm kvs lg)
      with VRef l show ?thesis by (simp add: wrap_body_def)
    next
      case (LoggedList nm xs lg)
      with g VRef have "list_all (good d' (heap st)) xs" by simp
      from returns_good_LoggedList_elements [OF assms(1,2) d(2) this, of cn] LoggedList VRef l
      show ?thesis by (auto simp: wrap_body_def LoggedList_new_def alloc_def)
    next
      case (LoggedSet nm xs lg)
      with g VRef have "list_all (\<lambda>x. primitive x \<and> good d' (heap st) x) xs" by simp
      from returns_good_LoggedSet_elements [OF assms(1,2,3) d(2) this, of cn "[]"] LoggedSet VRef l
      show ?thesis by (auto simp: wrap_body_def LoggedSet_new_def alloc_def)
    qed
  qed (use g in \<open>simp_all add: wrap_body_def\<close>)
qed

lemma returns_good_wrap: "returns_good (wrap_logged_config_value n) n"
proof (induction n)
  case 0
  show ?case by (auto simp: returns_good_def dest: good_positive)
next
  case (Suc n)
  then show ?case using growing_wrap [of n] keeps_good_wrap [of n]
    by (simp add: returns_good_wrap_body)
qed

lemma growing_dc_Return: "growing_dc dc \<Longrightarrow> dc memo v st = Return r st' \<Longrightarrow> grows st st'"
  unfolding growing_dc_def by (metis after_simps(3))

lemma growing_deepcopy_elements:
  "growing_dc dc \<Longrightarrow> after (grows st) (deepcopy_elements dc memo xs st)"
proof (induction xs arbitrary: st memo)
  case Nil
  show ?case by simp
next
  case (Cons x xs)
  show ?case
    unfolding deepcopy_elements.simps
    apply (rule after_and_then)
    using Cons.prems apply (simp add: growing_dc_def)
    apply (rule after_and_then)
     apply (rule Cons.IH [OF Cons.prems])
    apply simp
    done
qed

lemma growing_deepcopy_items:
  "growing_dc dc \<Longrightarrow> after (grows st) (deepcopy_items dc memo kvs acc st)"
proof (induction kvs arbitrary: st memo acc)
  case Nil
  show ?case by simp
next
  case (Cons kv kvs)
  show ?case
    unfolding deepcopy_items.simps
    apply (rule after_and_then)
    using Cons.prems apply (simp add: growing_dc_def)
    apply (rule Cons.IH [OF Cons.prems])
    done
qed

lemma growing_LoggedList_deepcopy_elements:
  "growing_dc dc \<Longrightarrow> growing w \<Longrightarrow> after (grows st) (LoggedList_deepcopy_elements dc w name memo xs st)"
proof (induction xs arbitrary: st memo)
  case Nil
  show ?case by simp
next
  case (Cons x xs)
  show ?case
    unfolding LoggedList_deepcopy_elements.simps
    apply (rule after_and_then)
    using Cons.prems apply (simp add: growing_dc_def)
    apply (rule after_and_then)
    using Cons.prems apply (simp add: growing_def)
    apply (rule after_and_then)
     apply (rule Cons.IH [OF Cons.prems])
    apply simp
    done
qed

lemma growing_LoggedSet_deepcopy_elements:
  "growing_dc dc \<Longrightarrow> growing w \<Longrightarrow> after (grows st) (LoggedSet_deepcopy_elements dc w name memo xs acc st)"
proof (induction xs arbitrary: st memo acc)
  case Nil
  show ?case by simp
next
  case (Cons x xs)
  show ?case
    unfolding LoggedSet_deepcopy_elements.simps
    apply (rule after_and_then)
    using Cons.prems apply (simp add: growing_dc_def)
    apply (rule after_and_then)
    using Cons.prems apply (simp add: growing_def)
    apply (simp add: Cons.IH [OF Cons.prems])
    done
qed

lemma growing_LoggedConfiguration_deepcopy_hook:
  "growing_dc dc \<Longrightarrow> growing w \<Longrightarrow> after (grows st) (LoggedConfiguration_deepcopy_hook dc w a memo st)"
  unfolding LoggedConfiguration_deepcopy_hook_def
  by (auto split: option.split obj.split
      intro!: after_and_then growing_deepcopy_items growing_LoggedConfiguration_new)

lemma growing_LoggedList_deepcopy_hook:
  "growing_dc dc \<Longrightarrow> growing w \<Longrightarrow> after (grows st) (LoggedList_deepcopy_hook dc w a memo st)"
  unfolding LoggedList_deepcopy_hook_def
  by (auto split: option.split obj.split
      intro!: after_and_then growing_LoggedList_deepcopy_elements grows_alloc)

lemma growing_LoggedSet_deepcopy_hook:
  "growing_dc dc \<Longrightarrow> growing w \<Longrightarrow> after (grows st) (LoggedSet_deepcopy_hook dc w a memo st)"
  unfolding LoggedSet_deepcopy_hook_def
  by (auto split: option.split obj.split
      intro!: after_and_then growing_LoggedSet_deepcopy_elements grows_alloc)

lemma growing_deepcopy_body:
  "growing_dc dc \<Longrightarrow> growing w \<Longrightarrow> growing_dc (deepcopy_body dc w)"
  unfolding growing_dc_def [of "deepcopy_body dc w"] deepcopy_body_def
  by (auto split: pyval.split option.split obj.split
      intro!: after_and_then growing_deepcopy_elements growing_deepcopy_items
        growing_LoggedConfiguration_deepcopy_hook growing_LoggedList_deepcopy_hook
        growing_LoggedSet_deepcopy_hook)

lemma growing_deepcopy: "growing_dc (deepcopy n)"
proof (induction n)
  case 0
  show ?case by (simp add: growing_dc_def)
next
  case (Suc n)
  then show ?case using growing_wrap [of n] by (simp add: growing_deepcopy_body)
qed

lemma memo_ok_prefix: "memo_ok h0 h memo \<Longrightarrow> prefix h h' \<Longrightarrow> memo_ok h0 h' memo"
  unfolding memo_ok_def using good_prefix by blast

lemma memo_ok_grows: "memo_ok h0 (heap st) memo \<Longrightarrow> grows st st' \<Longrightarrow> memo_ok h0 (heap st') memo"
  using memo_ok_prefix grows_prefix by blast

lemma memo_ok_Nil [simp]: "memo_ok h0 h []"
  by (simp add: memo_ok_def)

lemma memo_ok_Cons:
  "memo_ok h0 h memo \<Longrightarrow> (\<forall>d. good d h0 (VRef a) \<longrightarrow> good d h y) \<Longrightarrow> memo_ok h0 h ((a, y) # memo)"
  by (simp add: memo_ok_def)

lemma prefix_grows: "prefix h0 (heap st) \<Longrightarrow> grows st st' \<Longrightarrow> prefix h0 (heap st')"
  using grows_prefix prefix_order.trans by blast

lemma keeps_good_dc_step:
  assumes "keeps_good_dc dc" "prefix h0 (heap st)" "memo_ok h0 (heap st) memo"
    and "dc memo v st = Return r st'"
  shows "primitive v \<Longrightarrow> fst r = v" and "good d h0 v \<Longrightarrow> good d (heap st') (fst r)"
    and "memo_ok h0 (heap st') (snd r)"
  using assms unfolding keeps_good_dc_def by blast+

lemma keeps_good_step:
  assumes "keeps_good w" "w cn v st = Return r st'"
  shows "primitive v \<Longrightarrow> r = v" and "good d (heap st) v \<Longrightarrow> good d (heap st') r"
  using assms unfolding keeps_good_def by blast+

lemma keeps_good_dc_deepcopy_elements:
  assumes "keeps_good_dc dc" "growing_dc dc"
  shows "deepcopy_elements dc memo xs st = Return r st' \<Longrightarrow> prefix h0 (heap st)
           \<Longrightarrow> memo_ok h0 (heap st) memo \<Longrightarrow> memo_ok h0 (heap st') (snd r)"
proof (induction xs arbitrary: st memo r)
  case Nil
  then show ?case by auto
next
  case (Cons x xs)
  from Cons.prems(1) obtain r1 st1 rs where
    r1: "dc memo x st = Return r1 st1" and
    rs: "deepcopy_elements dc (snd r1) xs st1 = Return rs st'" and r: "snd r = snd rs"
    by (auto simp: and_then_Return)
  from growing_dc_Return [OF assms(2) r1] Cons.prems(2) have p1: "prefix h0 (heap st1)"
    by (auto intro: prefix_grows)
  from keeps_good_dc_step(3) [OF assms(1) Cons.prems(2,3) r1] have "memo_ok h0 (heap st1) (snd r1)" .
  from Cons.IH [OF rs p1 this] r show ?case by simp
qed

lemma keeps_good_dc_deepcopy_items:
  assumes "keeps_good_dc dc" "growing_dc dc"
  shows "deepcopy_items dc memo kvs acc st = Return r st' \<Longrightarrow> prefix h0 (heap st)
           \<Longrightarrow> memo_ok h0 (heap st) memo
           \<Longrightarrow> (list_all (\<lambda>kv. good d h0 (snd kv)) kvs \<longrightarrow> list_all (\<lambda>kv. good d (heap st) (snd kv)) acc \<longrightarrow>
                  list_all (\<lambda>kv. good d (heap st') (snd kv)) (fst r)) \<and>
               memo_ok h0 (heap st') (snd r)"
proof (induction kvs arbitrary: st memo acc)
  case Nil
  then show ?case by auto
next
  case (Cons kv kvs)
  from Cons.prems(1) obtain r1 st1 where
    r1: "dc memo (snd kv) st = Return r1 st1" and
    rest: "deepcopy_items dc (snd r1) kvs (dict_set (fst kv) (fst r1) acc) st1 = Return r st'"
    by (auto simp: and_then_Return)
  from growing_dc_Return [OF assms(2) r1] have g1: "grows st st1" .
  with Cons.prems(2) have p1: "prefix h0 (heap st1)" by (auto intro: prefix_grows)
  note k = keeps_good_dc_step [OF assms(1) Cons.prems(2,3) r1]
  from Cons.IH [OF rest p1 k(3)] have
    ih: "list_all (\<lambda>kv. good d h0 (snd kv)) kvs \<longrightarrow>
         list_all (\<lambda>kv. good d (heap st1) (snd kv)) (dict_set (fst kv) (fst r1) acc) \<longrightarrow>
         list_all (\<lambda>kv. good d (heap st') (snd kv)) (fst r)"
    and m: "memo_ok h0 (heap st') (snd r)" by simp_all
  have "list_all (\<lambda>kv. good d (heap st') (snd kv)) (fst r)"
    if a: "list_all (\<lambda>kv. good d h0 (snd kv)) (kv # kvs)" and b: "list_all (\<lambda>kv. good d (heap st) (snd kv)) acc"
  proof -
    from a have "good d (heap st1) (fst r1)" by (auto intro: k(2))
    moreover from b g1 have "list_all (\<lambda>kv. good d (heap st1) (snd kv)) acc"
      by (auto simp: list_all_iff intro: good_grows)
    ultimately have "list_all (\<lambda>kv. good d (heap st1) (snd kv)) (dict_set (fst kv) (fst r1) acc)"
      by (rule all_snd_dict_set)
    with ih a show ?thesis by simp
  qed
  with m show ?case by blast
qed

lemma keeps_good_dc_LoggedList_deepcopy_elements:
  assumes "keeps_good_dc dc" "growing_dc dc" "keeps_good w" "growing w"
  shows "LoggedList_deepcopy_elements dc w name memo xs st = Return r st' \<Longrightarrow> prefix h0 (heap st)
           \<Longrightarrow> memo_ok h0 (heap st) memo
           \<Longrightarrow> (list_all (good d h0) xs \<longrightarrow> list_all (good d (heap st')) (fst r)) \<and>
               memo_ok h0 (heap st') (snd r)"
proof (induction xs arbitrary: st memo r)
  case Nil
  then show ?case by auto
next
  case (Cons x xs)
  from Cons.prems(1) obtain r1 st1 v st2 rs where
    r1: "dc memo x st = Return r1 st1" and
    v: "w (name @ ''[...]'') (fst r1) st1 = Return v st2" and
    rs: "LoggedList_deepcopy_elements dc w name (snd r1) xs st2 = Return rs st'" and
    r: "r = (v # fst rs, snd rs)"
    by (auto simp: and_then_Return)
  from growing_dc_Return [OF assms(2) r1] have g1: "grows st st1" .
  from growing_Return [OF assms(4) v] have g2: "grows st1 st2" .
  from growing_LoggedList_deepcopy_elements [OF assms(2,4), of st2 name "snd r1" xs] rs
  have g3: "grows st2 st'" by simp
  from Cons.prems(2) g1 g2 have p2: "prefix h0 (heap st2)" by (auto intro: prefix_grows)
  note k = keeps_good_dc_step [OF assms(1) Cons.prems(2,3) r1]
  from k(3) g2 have m2: "memo_ok h0 (heap st2) (snd r1)" by (rule memo_ok_grows)
  from Cons.IH [OF rs p2 m2] have
    ih: "list_all (good d h0) xs \<longrightarrow> list_all (good d (heap st')) (fst rs)"
    and m: "memo_ok h0 (heap st') (snd rs)" by simp_all
  have "good d (heap st') v" if "good d h0 x"
    using that k(2) keeps_good_step(2) [OF assms(3) v] g3 by (auto intro: good_grows)
  with ih m r show ?case by simp
qed

lemma keeps_good_dc_LoggedSet_deepcopy_elements:
  assumes "keeps_good_dc dc" "growing_dc dc" "keeps_good w" "growing w"
  shows "LoggedSet_deepcopy_elements dc w name memo xs acc st = Return r st' \<Longrightarrow> prefix h0 (heap st)
           \<Longrightarrow> memo_ok h0 (heap st) memo
           \<Longrightarrow> (list_all (\<lambda>x. primitive x \<and> good d h0 x) xs \<longrightarrow>
                list_all (\<lambda>x. primitive x \<and> good d (heap st) x) acc \<longrightarrow>
                list_all (\<lambda>x. primitive x \<and> good d (heap st') x) (fst r)) \<and>
               memo_ok h0 (heap st') (snd r)"
proof (induction xs arbitrary: st memo acc)
  case Nil
  then show ?case by auto
next
  case (Cons x xs)
  from Cons.prems(1) obtain r1 st1 v st2 where
    r1: "dc memo x st = Return r1 st1" and
    v: "w (name @ ''[...]'') (fst r1) st1 = Return v st2" and
    rest: "LoggedSet_deepcopy_elements dc w name (snd r1) xs (set_add v acc) st2 = Return r st'"
    by (auto simp: and_then_Return split: if_splits)
  from growing_dc_Return [OF assms(2) r1] have g1: "grows st st1" .
  from growing_Return [OF assms(4) v] have g2: "grows st1 st2" .
  from Cons.prems(2) g1 g2 have p2: "prefix h0 (heap st2)" by (auto intro: prefix_grows)
  note k = keeps_good_dc_step [OF assms(1) Cons.prems(2,3) r1]
  from k(3) g2 have m2: "memo_ok h0 (heap st2) (snd r1)" by (rule memo_ok_grows)
  from Cons.IH [OF rest p2 m2] have
    ih: "list_all (\<lambda>x. primitive x \<and> good d h0 x) xs \<longrightarrow>
         list_all (\<lambda>x. primitive x \<and> good d (heap st2) x) (set_add v acc) \<longrightarrow>
         list_all (\<lambda>x. primitive x \<and> good d (heap st') x) (fst r)"
    and m: "memo_ok h0 (heap st') (snd r)" by simp_all
  have "list_all (\<lambda>x. primitive x \<and> good d (heap st') x) (fst r)"
    if a: "list_all (\<lambda>x. primitive x \<and> good d h0 x) (x # xs)"
      and b: "list_all (\<lambda>x. primitive x \<and> good d (heap st) x) acc"
  proof -
    from a have px: "primitive x" "good d h0 x" by simp_all
    from k(1) [OF px(1)] have "fst r1 = x" .
    with keeps_good_step(1) [OF assms(3) v] px have vx: "v = x" by simp
    from k(2) [OF px(2)] keeps_good_step(2) [OF assms(3) v] have "good d (heap st2) v" by blast
    with vx px have 1: "primitive v \<and> good d (heap st2) v" by simp
    from b g1 g2 have "list_all (\<lambda>x. primitive x \<and> good d (heap st2) x) acc"
      by (auto simp: list_all_iff intro: good_grows)
    with 1 have "list_all (\<lambda>x. primitive x \<and> good d (heap st2) x) (set_add v acc)"
      by (rule all_set_add)
    with ih a show ?thesis by simp
  qed
  with m show ?case by blast
qed

lemma prefix_nth_lookup:
  "prefix h0 (heap st) \<Longrightarrow> a < length h0 \<Longrightarrow> lookup st a = Some (h0 ! a)"
  by (auto simp: prefix_def lookup_def nth_append)

lemma good_plain_container [simp]:
  "good d h (VList xs) = False" "good d h (VTuple xs) = False"
  "good d h (VSet xs) = False" "good d h (VDict kvs) = False"
  by (cases d; simp)+

lemma keeps_good_dc_LoggedConfiguration_deepcopy_hook:
  assumes "keeps_good_dc dc" "growing_dc dc" "keeps_good w" "growing w"
    and "LoggedConfiguration_deepcopy_hook dc w a memo st = Return r st'"
    and "prefix h0 (heap st)" "memo_ok h0 (heap st) memo"
  shows "(\<forall>d. good d h0 (VRef a) \<longrightarrow> good d (heap st') (fst r)) \<and> memo_ok h0 (heap st') (snd r)"
proof -
  from assms(5) obtain nm data lg r1 st1 y where
    l: "lookup st a = Some (LoggedConfiguration nm data lg)" and
    r1: "deepcopy_items dc memo data [] st = Return r1 st1" and
    y: "LoggedConfiguration_new w (nm @ ''(copy)'') (fst r1) st1 = Return y st'" and
    r: "r = (y, snd r1)"
    by (auto simp: LoggedConfiguration_deepcopy_hook_def and_then_Return split: option.splits obj.splits)
  from growing_LoggedConfiguration_new [OF assms(4), of st1 "nm @ ''(copy)''" "fst r1"] y
  have g2: "grows st1 st'" by simp
  have m: "memo_ok h0 (heap st') (snd r1)"
    using keeps_good_dc_deepcopy_items [OF assms(1,2) r1 assms(6,7)] g2 by (auto intro: memo_ok_grows)
  have "good d (heap st') y" if g: "good d h0 (VRef a)" for d
  proof (cases d)
    case 0
    with g show ?thesis by simp
  next
    case (Suc d')
    with g have a: "a < length h0" by simp
    from prefix_nth_lookup [OF assms(6) a] l have "h0 ! a = LoggedConfiguration nm data lg" by simp
    with g Suc have "list_all (\<lambda>kv. good d' h0 (snd kv)) data" by simp
    with keeps_good_dc_deepcopy_items [OF assms(1,2) r1 assms(6,7), of d']
    have "list_all (\<lambda>kv. good d' (heap st1) (snd kv)) (fst r1)" by simp
    from keeps_good_LoggedConfiguration_new [OF assms(3,4) y this] Suc show ?thesis by simp
  qed
  with m r show ?thesis by simp
qed

lemma keeps_good_dc_LoggedList_deepcopy_hook:
  assumes "keeps_good_dc dc" "growing_dc dc" "keeps_good w" "growing w"
    and "LoggedList_deepcopy_hook dc w a memo st = Return r st'"
    and "prefix h0 (heap st)" "memo_ok h0 (heap st) memo"
  shows "(\<forall>d. good d h0 (VRef a) \<longrightarrow> good d (heap st') (fst r)) \<and> memo_ok h0 (heap st') (snd r)"
proof -
  from assms(5) obtain nm xs lg r1 st1 y where
    l: "lookup st a = Some (LoggedList nm xs lg)" and
    r1: "LoggedList_deepcopy_elements dc w (nm @ ''(copy)'') memo xs st = Return r1 st1" and
    y: "alloc (LoggedList (nm @ ''(copy)'') (fst r1) (nm @ ''(copy)'')) st1 = Return y st'" and
    r: "r = (y, snd r1)"
    by (auto simp: LoggedList_deepcopy_hook_def and_then_Return split: option.splits obj.splits)
  from grows_alloc [of st1 "LoggedList (nm @ ''(copy)'') (fst r1) (nm @ ''(copy)'')"] y
  have g2: "grows st1 st'" by simp
  have m: "memo_ok h0 (heap st') (snd r1)"
    using keeps_good_dc_LoggedList_deepcopy_elements [OF assms(1-4) r1 assms(6,7)] g2
    by (auto intro: memo_ok_grows)
  have "good d (heap st') y" if g: "good d h0 (VRef a)" for d
  proof (cases d)
    case 0
    with g show ?thesis by simp
  next
    case (Suc d')
    with g have a: "a < length h0" by simp
    from prefix_nth_lookup [OF assms(6) a] l have "h0 ! a = LoggedList nm xs lg" by simp
    with g Suc have "list_all (good d' h0) xs" by simp
    with keeps_good_dc_LoggedList_deepcopy_elements [OF assms(1-4) r1 assms(6,7), of d']
    have "list_all (good d' (heap st1)) (fst r1)" by simp
    then show ?thesis unfolding Suc by (intro good_alloc [OF y]) simp
  qed
  with m r show ?thesis by simp
qed

lemma keeps_good_dc_LoggedSet_deepcopy_hook:
  assumes "keeps_good_dc dc" "growing_dc dc" "keeps_good w" "growing w"
    and "LoggedSet_deepcopy_hook dc w a memo st = Return r st'"
    and "prefix h0 (heap st)" "memo_ok h0 (heap st) memo"
  shows "(\<forall>d. good d h0 (VRef a) \<longrightarrow> good d (heap st') (fst r)) \<and> memo_ok h0 (heap st') (snd r)"
proof -
  from assms(5) obtain nm xs lg r1 st1 y where
    l: "lookup st a = Some (LoggedSet nm xs lg)" and
    r1: "LoggedSet_deepcopy_elements dc w (nm @ ''(copy)'') memo xs [] st = Return r1 st1" and
    y: "alloc (LoggedSet (nm @ ''(copy)'') (fst r1) (nm @ ''(copy)'')) st1 = Return y st'" and
    r: "r = (y, snd r1)"
    by (auto simp: LoggedSet_deepcopy_hook_def and_then_Return split: option.splits obj.splits)
  from grows_alloc [of st1 "LoggedSet (nm @ ''(copy)'') (fst r1) (nm @ ''(copy)'')"] y
  have g2: "grows st1 st'" by simp
  have m: "memo_ok h0 (heap st') (snd r1)"
    using keeps_good_dc_LoggedSet_deepcopy_elements [OF assms(1-4) r1 assms(6,7)] g2
    by (auto intro: memo_ok_grows)
  have "good d (heap st') y" if g: "good d h0 (VRef a)" for d
  proof (cases d)
    case 0
    with g show ?thesis by simp
  next
    case (Suc d')
    with g have a: "a < length h0" by simp
    from prefix_nth_lookup [OF assms(6) a] l have "h0 ! a = LoggedSet nm xs lg" by simp
    with g Suc have "list_all (\<lambda>x. primitive x \<and> good d' h0 x) xs" by simp
    with keeps_good_dc_LoggedSet_deepcopy_elements [OF assms(1-4) r1 assms(6,7), of d']
    have "list_all (\<lambda>x. primitive x \<and> good d' (heap st1) x) (fst r1)" by simp
    then show ?thesis unfolding Suc by (intro good_alloc [OF y]) simp
  qed
  with m r show ?thesis by simp
qed

lemma keeps_good_dc_body:
  assumes "keeps_good_dc dc" "growing_dc dc" "keeps_good w" "growing w"
  shows "keeps_good_dc (deepcopy_body dc w)"
  unfolding keeps_good_dc_def
proof (intro allI impI)
  fix h0 memo v r and st st' :: state
  assume "prefix h0 (heap st) \<and> memo_ok h0 (heap st) memo \<and> deepcopy_body dc w memo v st = Return r st'"
  then have p: "prefix h0 (heap st)" and m: "memo_ok h0 (heap st) memo"
    and ret: "deepcopy_body dc w memo v st = Return r st'" by simp_all
  show "(primitive v \<longrightarrow> fst r = v) \<and> (\<forall>d. good d h0 v \<longrightarrow> good d (heap st') (fst r)) \<and>
        memo_ok h0 (heap st') (snd r)"
  proof (cases v)
    case (VRef a)
    show ?thesis
    proof (cases "map_of memo a")
      case (Some y)
      with ret VRef m show ?thesis by (auto simp: deepcopy_body_def memo_ok_def primitive_def)
    next
      case None
      show ?thesis
      proof (cases "lookup st a")
        case no: None
        with ret VRef None p m show ?thesis
          by (auto simp: deepcopy_body_def primitive_def intro: good_prefix)
      next
        case (Some ob)
        from ret VRef None Some obtain r1 where
          hook: "(case ob of
                    LoggedConfiguration _ _ _ \<Rightarrow> LoggedConfiguration_deepcopy_hook dc w a memo st
                  | LoggedList _ _ _ \<Rightarrow> LoggedList_deepcopy_hook dc w a memo st
                  | LoggedSet _ _ _ \<Rightarrow> LoggedSet_deepcopy_hook dc w a memo st) = Return r1 st'"
          and r: "r = (fst r1, (a, fst r1) # snd r1)"
          by (auto simp: deepcopy_body_def and_then_Return)
        have "(\<forall>d. good d h0 (VRef a) \<longrightarrow> good d (heap st') (fst r1)) \<and> memo_ok h0 (heap st') (snd r1)"
          using hook keeps_good_dc_LoggedConfiguration_deepcopy_hook [OF assms _ p m]
            keeps_good_dc_LoggedList_deepcopy_hook [OF assms _ p m]
            keeps_good_dc_LoggedSet_deepcopy_hook [OF assms _ p m]
          by (cases ob) auto
        with r VRef show ?thesis by (auto simp: primitive_def intro: memo_ok_Cons)
      qed
    qed
  next
    case (VList xs)
    with ret p m keeps_good_dc_deepcopy_elements [OF assms(1,2)] show ?thesis
      by (auto simp: deepcopy_body_def and_then_Return primitive_def)
  next
    case (VTuple xs)
    with ret p m keeps_good_dc_deepcopy_elements [OF assms(1,2)] show ?thesis
      by (auto simp: deepcopy_body_def and_then_Return primitive_def)
  next
    case (VSet xs)
    with ret p m keeps_good_dc_deepcopy_elements [OF assms(1,2)] show ?thesis
      by (auto simp: deepcopy_body_def and_then_Return primitive_def)
  next
    case (VDict kvs)
    with ret p m keeps_good_dc_deepcopy_items [OF assms(1,2)] show ?thesis
      by (fastforce simp: deepcopy_body_def and_then_Return primitive_def)
  qed (use ret p m in \<open>auto simp: deepcopy_body_def intro: good_prefix\<close>)
qed

lemma keeps_good_dc_deepcopy: "keeps_good_dc (deepcopy n)"
proof (induction n)
  case 0
  show ?case by (simp add: keeps_good_dc_def)
next
  case (Suc n)
  then show ?case using growing_deepcopy [of n] keeps_good_wrap [of n] growing_wrap [of n]
    by (simp add: keeps_good_dc_body)
qed

lemma returns_good_dc_step:
  assumes "returns_good_dc dc n" "prefix h0 (heap st)" "memo_ok h0 (heap st) memo"
    and "good d h0 v" "d \<le> n"
  shows "\<exists>r st'. dc memo v st = Return r st'"
  using assms unfolding returns_good_dc_def by blast

lemma returns_good_step:
  assumes "returns_good w n" "good d (heap st) v" "d \<le> n"
  shows "\<exists>r st'. w cn v st = Return r st'"
  using assms unfolding returns_good_def by blast

lemma returns_good_dc_deepcopy_items:
  assumes "returns_good_dc dc n" "keeps_good_dc dc" "growing_dc dc" "d \<le> n"
  shows "prefix h0 (heap st) \<Longrightarrow> memo_ok h0 (heap st) memo
           \<Longrightarrow> list_all (\<lambda>kv. good d h0 (snd kv)) kvs
           \<Longrightarrow> \<exists>r st'. deepcopy_items dc memo kvs acc st = Return r st'"
proof (induction kvs arbitrary: st memo acc)
  case Nil
  show ?case by simp
next
  case (Cons kv kvs)
  from Cons.prems have g: "good d h0 (snd kv)" and gs: "list_all (\<lambda>kv. good d h0 (snd kv)) kvs"
    by simp_all
  from returns_good_dc_step [OF assms(1) Cons.prems(1,2) g assms(4)] obtain r1 st1 where
    r1: "dc memo (snd kv) st = Return r1 st1" by blast
  have p1: "prefix h0 (heap st1)"
    using prefix_grows [OF Cons.prems(1) growing_dc_Return [OF assms(3) r1]] .
  have m1: "memo_ok h0 (heap st1) (snd r1)"
    using keeps_good_dc_step(3) [OF assms(2) Cons.prems(1,2) r1] .
  from Cons.IH [OF p1 m1 gs, of "dict_set (fst kv) (fst r1) acc"] r1 show ?case by simp
qed

lemma returns_good_dc_LoggedList_deepcopy_elements:
  assumes "returns_good_dc dc n" "keeps_good_dc dc" "growing_dc dc"
    and "returns_good w n" "growing w" "d \<le> n"
  shows "prefix h0 (heap st) \<Longrightarrow> memo_ok h0 (heap st) memo \<Longrightarrow> list_all (good d h0) xs
           \<Longrightarrow> \<exists>r st'. LoggedList_deepcopy_elements dc w name memo xs st = Return r st'"
proof (induction xs arbitrary: st memo)
  case Nil
  show ?case by simp
next
  case (Cons x xs)
  from Cons.prems have g: "good d h0 x" and gs: "list_all (good d h0) xs" by simp_all
  from returns_good_dc_step [OF assms(1) Cons.prems(1,2) g assms(6)] obtain r1 st1 where
    r1: "dc memo x st = Return r1 st1" by blast
  have p1: "prefix h0 (heap st1)"
    using prefix_grows [OF Cons.prems(1) growing_dc_Return [OF assms(3) r1]] .
  have m1: "memo_ok h0 (heap st1) (snd r1)"
    using keeps_good_dc_step(3) [OF assms(2) Cons.prems(1,2) r1] .
  have g1: "good d (heap st1) (fst r1)"
    using keeps_good_dc_step(2) [OF assms(2) Cons.prems(1,2) r1 g] .
  from returns_good_step [OF assms(4) g1 assms(6), of "name @ ''[...]''"] obtain v st2 where
    v: "w (name @ ''[...]'') (fst r1) st1 = Return v st2" by blast
  have g2: "grows st1 st2" using growing_Return [OF assms(5) v] .
  have p2: "prefix h0 (heap st2)" using prefix_grows [OF p1 g2] .
  have m2: "memo_ok h0 (heap st2) (snd r1)" using memo_ok_grows [OF m1 g2] .
  from Cons.IH [OF p2 m2 gs] r1 v show ?case by auto
qed

lemma returns_good_dc_LoggedSet_deepcopy_elements:
  assumes "returns_good_dc dc n" "keeps_good_dc dc" "growing_dc dc"
    and "returns_good w n" "growing w" "keeps_good w" "d \<le> n"
  shows "prefix h0 (heap st) \<Longrightarrow> memo_ok h0 (heap st) memo
           \<Longrightarrow> list_all (\<lambda>x. primitive x \<and> good d h0 x) xs
           \<Longrightarrow> \<exists>r st'. LoggedSet_deepcopy_elements dc w name memo xs acc st = Return r st'"
proof (induction xs arbitrary: st memo acc)
  case Nil
  show ?case by simp
next
  case (Cons x xs)
  from Cons.prems have px: "primitive x" and g: "good d h0 x"
    and gs: "list_all (\<lambda>x. primitive x \<and> good d h0 x) xs" by simp_all
  from returns_good_dc_step [OF assms(1) Cons.prems(1,2) g assms(7)] obtain r1 st1 where
    r1: "dc memo x st = Return r1 st1" by blast
  have p1: "prefix h0 (heap st1)"
    using prefix_grows [OF Cons.prems(1) growing_dc_Return [OF assms(3) r1]] .
  have m1: "memo_ok h0 (heap st1) (snd r1)"
    using keeps_good_dc_step(3) [OF assms(2) Cons.prems(1,2) r1] .
  have e1: "fst r1 = x"
    using keeps_good_dc_step(1) [OF assms(2) Cons.prems(1,2) r1 px] .
  have g1: "good d (heap st1) (fst r1)"
    using keeps_good_dc_step(2) [OF assms(2) Cons.prems(1,2) r1 g] .
  from returns_good_step [OF assms(4) g1 assms(7), of "name @ ''[...]''"] obtain v st2 where
    v: "w (name @ ''[...]'') (fst r1) st1 = Return v st2" by blast
  from keeps_good_step(1) [OF assms(6) v] px e1 have hv: "hashable v"
    by (simp add: hashable_primitive)
  have g2: "grows st1 st2" using growing_Return [OF assms(5) v] .
  have p2: "prefix h0 (heap st2)" using prefix_grows [OF p1 g2] .
  have m2: "memo_ok h0 (heap st2) (snd r1)" using memo_ok_grows [OF m1 g2] .
  from Cons.IH [OF p2 m2 gs, of "set_add v acc"] r1 v hv show ?case by simp
qed

lemma returns_good_dc_LoggedConfiguration_deepcopy_hook:
  assumes "returns_good_dc dc n" "keeps_good_dc dc" "growing_dc dc"
    and "returns_good w n" "growing w" "keeps_good w" "d \<le> n"
    and "prefix h0 (heap st)" "memo_ok h0 (heap st) memo"
    and "lookup st a = Some (LoggedConfiguration nm data lg)"
    and "list_all (\<lambda>kv. good d h0 (snd kv)) data"
  shows "\<exists>r st'. LoggedConfiguration_deepcopy_hook dc w a memo st = Return r st'"
proof -
  from returns_good_dc_deepcopy_items [OF assms(1-3,7,8,9,11), of "[]"] obtain r1 st1 where
    r1: "deepcopy_items dc memo data [] st = Return r1 st1" by blast
  from keeps_good_dc_deepcopy_items [OF assms(2,3) r1 assms(8,9), of d] assms(11)
  have g1: "list_all (\<lambda>kv. good d (heap st1) (snd kv)) (fst r1)" by simp
  from returns_good_LoggedConfiguration_items [OF assms(4,5,7) g1, of "nm @ ''(copy)''" "[]"]
  obtain ys st2 where "LoggedConfiguration_items w (nm @ ''(copy)'') (fst r1) [] st1 = Return ys st2"
    by blast
  then have "\<exists>y st3. LoggedConfiguration_new w (nm @ ''(copy)'') (fst r1) st1 = Return y st3"
    by (simp add: LoggedConfiguration_new_def alloc_def)
  with r1 assms(10) show ?thesis
    by (auto simp: LoggedConfiguration_deepcopy_hook_def)
qed

lemma returns_good_dc_LoggedList_deepcopy_hook:
  assumes "returns_good_dc dc n" "keeps_good_dc dc" "growing_dc dc"
    and "returns_good w n" "growing w" "d \<le> n"
    and "prefix h0 (heap st)" "memo_ok h0 (heap st) memo"
    and "lookup st a = Some (LoggedList nm xs lg)"
    and "list_all (good d h0) xs"
  shows "\<exists>r st'. LoggedList_deepcopy_hook dc w a memo st = Return r st'"
proof -
  from returns_good_dc_LoggedList_deepcopy_elements [OF assms(1-8,10), of "nm @ ''(copy)''"]
  obtain r1 st1 where
    "LoggedList_deepcopy_elements dc w (nm @ ''(copy)'') memo xs st = Return r1 st1" by blast
  with assms(9) show ?thesis
    by (simp add: LoggedList_deepcopy_hook_def alloc_def)
qed

lemma returns_good_dc_LoggedSet_deepcopy_hook:
  assumes "returns_good_dc dc n" "keeps_good_dc dc" "growing_dc dc"
    and "returns_good w n" "growing w" "keeps_good w" "d \<le> n"
    and "prefix h0 (heap st)" "memo_ok h0 (heap st) memo"
    and "lookup st a = Some (LoggedSet nm xs lg)"
    and "list_all (\<lambda>x. primitive x \<and> good d h0 x) xs"
  shows "\<exists>r st'. LoggedSet_deepcopy_hook dc w a memo st = Return r st'"
proof -
  from returns_good_dc_LoggedSet_deepcopy_elements [OF assms(1-9,11), of "nm @ ''(copy)''" "[]"]
  obtain r1 st1 where
    "LoggedSet_deepcopy_elements dc w (nm @ ''(copy)'') memo xs [] st = Return r1 st1" by blast
  with assms(10) show ?thesis
    by (simp add: LoggedSet_deepcopy_hook_def alloc_def)
qed

lemma returns_good_dc_body:
  assumes "returns_good_dc dc n" "keeps_good_dc dc" "growing_dc dc"
    and "returns_good w n" "growing w" "keeps_good w"
  shows "returns_good_dc (deepcopy_body dc w) (Suc n)"
  unfolding returns_good_dc_def
proof (intro allI impI)
  fix h0 memo v d and st :: state
  assume "prefix h0 (heap st) \<and> memo_ok h0 (heap st) memo \<and> good d h0 v \<and> d \<le> Suc n"
  then have p: "prefix h0 (heap st)" and m: "memo_ok h0 (heap st) memo"
    and g: "good d h0 v" and le: "d \<le> Suc n" by simp_all
  from g obtain d' where d: "d = Suc d'" by (cases d) simp_all
  with le have le': "d' \<le> n" by simp
  show "\<exists>r st'. deepcopy_body dc w memo v st = Return r st'"
  proof (cases v)
    case (VRef a)
    with g d have a: "a < length h0" and
      ch: "case h0 ! a of
             LoggedConfiguration _ kvs _ \<Rightarrow> list_all (\<lambda>kv. good d' h0 (snd kv)) kvs
           | LoggedList _ xs _ \<Rightarrow> list_all (good d' h0) xs
           | LoggedSet _ xs _ \<Rightarrow> list_all (\<lambda>x. primitive x \<and> good d' h0 x) xs"
      by simp_all
    from prefix_nth_lookup [OF p a] have l: "lookup st a = Some (h0 ! a)" .
    show ?thesis
    proof (cases "map_of memo a")
      case (Some y)
      with VRef show ?thesis by (simp add: deepcopy_body_def)
    next
      case None
      have "\<exists>r1 st1. (case h0 ! a of
                    LoggedConfiguration _ _ _ \<Rightarrow> LoggedConfiguration_deepcopy_hook dc w a memo st
                  | LoggedList _ _ _ \<Rightarrow> LoggedList_deepcopy_hook dc w a memo st
                  | LoggedSet _ _ _ \<Rightarrow> LoggedSet_deepcopy_hook dc w a memo st) = Return r1 st1"
      proof (cases "h0 ! a")
        case (LoggedConfiguration nm data lg)
        with ch have "list_all (\<lambda>kv. good d' h0 (snd kv)) data" by simp
        from returns_good_dc_LoggedConfiguration_deepcopy_hook [OF assms le' p m _ this, of a nm lg]
          l LoggedConfiguration show ?thesis by simp
      next
        case (LoggedList nm xs lg)
        with ch have "list_all (good d' h0) xs" by simp
        from returns_good_dc_LoggedList_deepcopy_hook [OF assms(1-5) le' p m _ this, of a nm lg]
          l LoggedList show ?thesis by simp
      next
        case (LoggedSet nm xs lg)
        with ch have "list_all (\<lambda>x. primitive x \<and> good d' h0 x) xs" by simp
        from returns_good_dc_LoggedSet_deepcopy_hook [OF assms le' p m _ this, of a nm lg]
          l LoggedSet show ?thesis by simp
      qed
      then show ?thesis using VRef None l by (auto simp: deepcopy_body_def)
    qed
  qed (use g in \<open>simp_all add: deepcopy_body_def\<close>)
qed

lemma returns_good_dc_deepcopy: "returns_good_dc (deepcopy n) n"
proof (induction n)
  case 0
  show ?case by (auto simp: returns_good_dc_def dest: good_positive)
next
  case (Suc n)
  then show ?case
    using returns_good_dc_body [OF _ keeps_good_dc_deepcopy growing_deepcopy returns_good_wrap
        growing_wrap keeps_good_wrap, of n]
    by simp
qed

lemma new_logged_grows:
  "grows st st1 \<Longrightarrow> new_logged c name st1 st' r \<Longrightarrow> new_logged c name st st' r"
  by (auto simp: new_logged_def dest: grows_length split: pyval.splits)

lemma copy_copy_Return:
  assumes "lookup st self = Some ob" "copy_copy n self st = Return r st'"
  shows "new_logged (class_of_obj ob) (name_of ob @ ''(copy)'') st st' r \<and> grows st st'"
proof (cases ob)
  case (LoggedConfiguration nm data lg)
  with assms have r: "LoggedConfiguration_new (wrap_logged_config_value n) (nm @ ''(copy)'') data st = Return r st'"
    by (simp add: copy_copy_def LoggedConfiguration_copy_hook_def LoggedConfiguration_init_def)
  from LoggedConfiguration_new_Return [OF growing_wrap r]
    growing_LoggedConfiguration_new [OF growing_wrap [of n], of st "nm @ ''(copy)''" data] r
  show ?thesis using LoggedConfiguration by (simp add: class_of_obj_def name_of_def)
next
  case (LoggedList nm xs lg)
  with assms have r: "LoggedList_new (wrap_logged_config_value n) (nm @ ''(copy)'') xs st = Return r st'"
    by (simp add: copy_copy_def LoggedList_copy_hook_def LoggedList_init_def)
  from LoggedList_new_Return [OF growing_wrap r]
    growing_LoggedList_new [OF growing_wrap [of n], of st "nm @ ''(copy)''" xs] r
  show ?thesis using LoggedList by (simp add: class_of_obj_def name_of_def)
next
  case (LoggedSet nm xs lg)
  with assms have r: "LoggedSet_new (wrap_logged_config_value n) (nm @ ''(copy)'') xs st = Return r st'"
    by (simp add: copy_copy_def LoggedSet_copy_hook_def LoggedSet_init_def)
  from LoggedSet_new_Return [OF growing_wrap r]
    growing_LoggedSet_new [OF growing_wrap [of n], of st "nm @ ''(copy)''" xs] r
  show ?thesis using LoggedSet by (simp add: class_of_obj_def name_of_def)
qed

lemma LoggedConfiguration_deepcopy_hook_Return:
  assumes "growing_dc dc" "growing w" "lookup st a = Some ob"
    and "LoggedConfiguration_deepcopy_hook dc w a memo st = Return r st'"
  shows "new_logged Mapping (name_of ob @ ''(copy)'') st st' (fst r)"
proof -
  from assms(3,4) obtain nm data lg r1 st1 where
    ob: "ob = LoggedConfiguration nm data lg" and
    r1: "deepcopy_items dc memo data [] st = Return r1 st1" and
    y: "LoggedConfiguration_new w (nm @ ''(copy)'') (fst r1) st1 = Return (fst r) st'"
    by (auto simp: LoggedConfiguration_deepcopy_hook_def and_then_Return split: obj.splits)
  from growing_deepcopy_items [OF assms(1), of st memo data "[]"] r1 have "grows st st1" by simp
  from new_logged_grows [OF this LoggedConfiguration_new_Return [OF assms(2) y]] ob
  show ?thesis by (simp add: name_of_def)
qed

lemma LoggedList_deepcopy_hook_Return:
  assumes "growing_dc dc" "growing w" "lookup st a = Some ob"
    and "LoggedList_deepcopy_hook dc w a memo st = Return r st'"
  shows "new_logged Sequence (name_of ob @ ''(copy)'') st st' (fst r)"
proof -
  from assms(3,4) obtain nm xs lg r1 st1 where
    ob: "ob = LoggedList nm xs lg" and
    r1: "LoggedList_deepcopy_elements dc w (nm @ ''(copy)'') memo xs st = Return r1 st1" and
    y: "alloc (LoggedList (nm @ ''(copy)'') (fst r1) (nm @ ''(copy)'')) st1 = Return (fst r) st'"
    by (auto simp: LoggedList_deepcopy_hook_def and_then_Return split: obj.splits)
  from growing_LoggedList_deepcopy_elements [OF assms(1,2), of st "nm @ ''(copy)''" memo xs] r1
  have "grows st st1" by simp
  then have "length (heap st) \<le> length (heap st1)" by (rule grows_length)
  with y ob show ?thesis
    by (auto simp: alloc_Return new_logged_def lookup_def name_of_def)
qed

lemma LoggedSet_deepcopy_hook_Return:
  assumes "growing_dc dc" "growing w" "lookup st a = Some ob"
    and "LoggedSet_deepcopy_hook dc w a memo st = Return r st'"
  shows "new_logged SetClass (name_of ob @ ''(copy)'') st st' (fst r)"
proof -
  from assms(3,4) obtain nm xs lg r1 st1 where
    ob: "ob = LoggedSet nm xs lg" and
    r1: "LoggedSet_deepcopy_elements dc w (nm @ ''(copy)'') memo xs [] st = Return r1 st1" and
    y: "alloc (LoggedSet (nm @ ''(copy)'') (fst r1) (nm @ ''(copy)'')) st1 = Return (fst r) st'"
    by (auto simp: LoggedSet_deepcopy_hook_def and_then_Return split: obj.splits)
  from growing_LoggedSet_deepcopy_elements [OF assms(1,2), of st "nm @ ''(copy)''" memo xs "[]"] r1
  have "grows st st1" by simp
  then have "length (heap st) \<le> length (heap st1)" by (rule grows_length)
  with y ob show ?thesis
    by (auto simp: alloc_Return new_logged_def lookup_def name_of_def)
qed

lemma copy_deepcopy_Return:
  assumes "lookup st self = Some ob" "copy_deepcopy n (VRef self) st = Return r st'"
  shows "new_logged (class_of_obj ob) (name_of ob @ ''(copy)'') st st' r \<and> grows st st'"
proof -
  from assms(2) obtain k where n: "n = Suc k" by (cases n) (simp_all add: copy_deepcopy_def)
  from assms(2) obtain m where dr: "deepcopy n [] (VRef self) st = Return (r, m) st'"
    by (auto simp: copy_deepcopy_def and_then_Return)
  from growing_dc_Return [OF growing_deepcopy dr] have g: "grows st st'" .
  from dr n assms(1) obtain r1 where
    hook: "(case ob of
              LoggedConfiguration _ _ _ \<Rightarrow>
                LoggedConfiguration_deepcopy_hook (deepcopy k) (wrap_logged_config_value k) self [] st
            | LoggedList _ _ _ \<Rightarrow>
                LoggedList_deepcopy_hook (deepcopy k) (wrap_logged_config_value k) self [] st
            | LoggedSet _ _ _ \<Rightarrow>
                LoggedSet_deepcopy_hook (deepcopy k) (wrap_logged_config_value k) self [] st)
            = Return r1 st'" and r: "r = fst r1"
    by (auto simp: deepcopy_body_def and_then_Return)
  have "new_logged (class_of_obj ob) (name_of ob @ ''(copy)'') st st' (fst r1)"
    using hook
      LoggedConfiguration_deepcopy_hook_Return [OF growing_deepcopy growing_wrap assms(1)]
      LoggedList_deepcopy_hook_Return [OF growing_deepcopy growing_wrap assms(1)]
      LoggedSet_deepcopy_hook_Return [OF growing_deepcopy growing_wrap assms(1)]
    by (cases ob) (auto simp: class_of_obj_def)
  with r g show ?thesis by simp
qed

lemma copy_copy_returns:
  assumes "good d (heap st) (VRef self)" "d \<le> n"
  shows "\<exists>r st'. copy_copy n self st = Return r st'"
proof -
  from assms(1) obtain d' where d: "d = Suc d'" by (cases d) simp_all
  with assms(2) have le: "d' \<le> n" by simp
  from assms(1) d have a: "self < length (heap st)" and
    ch: "case heap st ! self of
           LoggedConfiguration _ kvs _ \<Rightarrow> list_all (\<lambda>kv. good d' (heap st) (snd kv)) kvs
         | LoggedList _ xs _ \<Rightarrow> list_all (good d' (heap st)) xs
         | LoggedSet _ xs _ \<Rightarrow> list_all (\<lambda>x. primitive x \<and> good d' (heap st) x) xs"
    by simp_all
  from a have l: "lookup st self = Some (heap st ! self)" by (simp add: lookup_def)
  show ?thesis
  proof (cases "heap st ! self")
    case (LoggedConfiguration nm data lg)
    with ch have "list_all (\<lambda>kv. good d' (heap st) (snd kv)) data" by simp
    from returns_good_LoggedConfiguration_items [OF returns_good_wrap growing_wrap le this,
        of "nm @ ''(copy)''" "[]"]
    show ?thesis using l LoggedConfiguration
      by (auto simp: copy_copy_def LoggedConfiguration_copy_hook_def LoggedConfiguration_init_def
          LoggedConfiguration_new_def alloc_def)
  next
    case (LoggedList nm xs lg)
    with ch have "list_all (good d' (heap st)) xs" by simp
    from returns_good_LoggedList_elements [OF returns_good_wrap growing_wrap le this,
        of "nm @ ''(copy)''"]
    show ?thesis using l LoggedList
      by (auto simp: copy_copy_def LoggedList_copy_hook_def LoggedList_init_def
          LoggedList_new_def alloc_def)
  next
    case (LoggedSet nm xs lg)
    with ch have "list_all (\<lambda>x. primitive x \<and> good d' (heap st) x) xs" by simp
    from returns_good_LoggedSet_elements [OF returns_good_wrap growing_wrap keeps_good_wrap le this,
        of "nm @ ''(copy)''" "[]"]
    show ?thesis using l LoggedSet
      by (auto simp: copy_copy_def LoggedSet_copy_hook_def LoggedSet_init_def
          LoggedSet_new_def alloc_def)
  qed
qed

lemma copy_deepcopy_returns:
  assumes "good d (heap st) (VRef self)" "d \<le> n"
  shows "\<exists>r st'. copy_deepcopy n (VRef self) st = Return r st'"
proof -
  from returns_good_dc_step [OF returns_good_dc_deepcopy _ _ assms, of st "[]"]
  obtain r st' where "deepcopy n [] (VRef self) st = Return r st'" by auto
  then show ?thesis by (simp add: copy_deepcopy_def)
qed




section \<open>Properties\<close>

subsection \<open>LoggedSet.pop\<close>

text \<open>
  C5 (the part on \<^verbatim>\<open>pop\<close>): on a set that holds one element,
  \<^verbatim>\<open>pop\<close> called with no argument, or with any arguments, raises
  \<open>TypeError\<close> and leaves the element in the set. It never removes and
  returns an element: without an argument the call does not match the
  method's parameter \<^verbatim>\<open>value\<close>, and with one the method hands it to
  \<^verbatim>\<open>set.pop\<close>, which takes none.
\<close>

theorem LoggedSet_pop_raises:
  "\<forall>args. \<exists>st'.
      call_LoggedSet_pop 0 args \<lparr>heap = [LoggedSet ''s'' [VInt 1] ''s''], trace = []\<rparr>
        = Raise TypeError st'
      \<and> heap st' = [LoggedSet ''s'' [VInt 1] ''s'']"
  by (simp add: call_LoggedSet_pop_def LoggedSet_pop_def set_pop_def store_defs split: list.split)

subsection \<open>LoggedSet.add\<close>

text \<open>
  C2 (the part on \<^verbatim>\<open>LoggedSet.add\<close>): \<^verbatim>\<open>add\<close> does not wrap
  its argument. Adding the tuple \<^verbatim>\<open>(2, 3)\<close> to the logged set
  \<^verbatim>\<open>{1}\<close>, whose stored values are all wrapped, returns with the plain
  tuple stored in the set, so that the stored values are no longer all wrapped.
\<close>

theorem LoggedSet_add_stores_plain_tuple:
  "all_wrapped \<lparr>heap = [LoggedSet ''s'' [VInt 1] ''s''], trace = []\<rparr> \<and>
   (\<exists>st'. LoggedSet_add 0 (VTuple [VInt 2, VInt 3])
             \<lparr>heap = [LoggedSet ''s'' [VInt 1] ''s''], trace = []\<rparr>
            = Return VNone st'
        \<and> heap st' = [LoggedSet ''s'' [VInt 1, VTuple [VInt 2, VInt 3]] ''s'']
        \<and> \<not> all_wrapped st')"
  by (simp add: LoggedSet_add_def all_wrapped_def stored_values_def plain_container_def store_defs)

text \<open>
  \<^verbatim>\<open>LoggedList.append\<close> wraps the same tuple into a \<open>LoggedList\<close>
  before it stores it.
\<close>

lemma LoggedList_append_wraps_tuple:
  "LoggedList_append 2 0 (VTuple [VInt 2, VInt 3])
      \<lparr>heap = [LoggedList ''l'' [VInt 1] ''l''], trace = []\<rparr>
   = Return VNone
      \<lparr>heap = [LoggedList ''l'' [VInt 1, VRef 1] ''l'',
               LoggedList ''l[...]'' [VInt 2, VInt 3] ''l[...]''],
       trace = [Info ''l'' Appending [VStr ''l'', VTuple [VInt 2, VInt 3]], Alloc 1, Write 0]\<rparr>"
  by (simp add: LoggedList_append_def store_defs wrap_defs eval_nat_numeral)

subsection \<open>Shallow and deep copies\<close>

text \<open>
  C3 (the part on shallow copies): the mapping \<open>m\<close> is built from
  \<^verbatim>\<open>{"servers": ["a"]}\<close> and \<open>c\<close> is \<^verbatim>\<open>m.copy(deep=False)\<close>.
  The list \<open>x\<close> that \<open>c\<close> holds under \<^verbatim>\<open>servers\<close> is a new
  \<open>LoggedList\<close>, not the one \<open>m\<close> holds: appending \<^verbatim>\<open>"b"\<close> to
  it shows in \<^verbatim>\<open>c.to_dict()\<close> and not in \<^verbatim>\<open>m.to_dict()\<close>.
\<close>

theorem shallow_copy_list_child_not_shared:
  "and_then (LoggedConfiguration_init 3 ''app'' [(''servers'', VList [VStr ''a''])]
               \<lparr>heap = [], trace = []\<rparr>)
     (\<lambda>m st1. and_then (LoggedConfiguration_copy 3 1 False st1)
        (\<lambda>c st2. and_then (LoggedConfiguration_getitem 3 ''servers'' st2)
           (\<lambda>x st3. and_then (LoggedList_append 2 2 (VStr ''b'') st3)
              (\<lambda>_ st4. and_then (to_dict 3 1 st4)
                 (\<lambda>dm st5. and_then (to_dict 3 3 st5)
                    (\<lambda>dc st6. Return (m, c, x, dm, dc) st6))))))
   = Return (VRef 1, VRef 3, VRef 2, VDict [(''servers'', VList [VStr ''a''])],
             VDict [(''servers'', VList [VStr ''a'', VStr ''b''])])
       \<lparr>heap = [LoggedList ''app.servers'' [VStr ''a''] ''app.servers'',
                LoggedConfiguration ''app'' [(''servers'', VRef 0)] ''app'',
                LoggedList ''app(copy).servers'' [VStr ''a'', VStr ''b''] ''app(copy).servers'',
                LoggedConfiguration ''app(copy)'' [(''servers'', VRef 2)] ''app(copy)''],
        trace = [Alloc 0, Alloc 1, Alloc 2, Alloc 3,
                 Info ''app(copy).servers'' Appending [VStr ''app(copy).servers'', VStr ''b''],
                 Write 2]\<rparr>"
  by (simp add: store_defs wrap_defs LoggedConfiguration_copy_def copy_copy_def
      LoggedConfiguration_copy_hook_def LoggedConfiguration_getitem_def LoggedList_append_def
      to_dict_def unwrap_body_def eval_nat_numeral)

text \<open>
  A nested mapping is shared: with \<open>m\<close> built from
  \<^verbatim>\<open>{"limits": {"max": 5}}\<close>, the shallow copy holds the very
  \<open>LoggedConfiguration\<close> that \<open>m\<close> holds under \<^verbatim>\<open>limits\<close>, and
  setting \<^verbatim>\<open>max\<close> through the copy shows in \<^verbatim>\<open>m.to_dict()\<close>.
  The deep copy holds a clone of it, and the same assignment does not show.
\<close>

lemma shallow_copy_mapping_child_shared:
  "and_then (LoggedConfiguration_init 3 ''app'' [(''limits'', VDict [(''max'', VInt 5)])]
               \<lparr>heap = [], trace = []\<rparr>)
     (\<lambda>m st1. and_then (LoggedConfiguration_copy 3 1 False st1)
        (\<lambda>c st2. and_then (LoggedConfiguration_getitem 2 ''limits'' st2)
           (\<lambda>x st3. and_then (LoggedConfiguration_setitem 1 0 ''max'' (VInt 6) st3)
              (\<lambda>_ st4. and_then (to_dict 3 1 st4)
                 (\<lambda>dm st5. Return (m, c, x, dm) (st5\<lparr>trace := []\<rparr>))))))
   = Return (VRef 1, VRef 2, VRef 0, VDict [(''limits'', VDict [(''max'', VInt 6)])])
       \<lparr>heap = [LoggedConfiguration ''app.limits'' [(''max'', VInt 6)] ''app.limits'',
                LoggedConfiguration ''app'' [(''limits'', VRef 0)] ''app'',
                LoggedConfiguration ''app(copy)'' [(''limits'', VRef 0)] ''app(copy)''],
        trace = []\<rparr>"
  by (simp add: store_defs wrap_defs LoggedConfiguration_copy_def copy_copy_def
      LoggedConfiguration_copy_hook_def LoggedConfiguration_getitem_def
      LoggedConfiguration_setitem_def to_dict_def unwrap_body_def eval_nat_numeral)

lemma deep_copy_mapping_child_not_shared:
  "and_then (LoggedConfiguration_init 3 ''app'' [(''limits'', VDict [(''max'', VInt 5)])]
               \<lparr>heap = [], trace = []\<rparr>)
     (\<lambda>m st1. and_then (LoggedConfiguration_copy 4 1 True st1)
        (\<lambda>c st2. and_then (LoggedConfiguration_getitem 3 ''limits'' st2)
           (\<lambda>x st3. and_then (LoggedConfiguration_setitem 1 2 ''max'' (VInt 6) st3)
              (\<lambda>_ st4. and_then (to_dict 3 1 st4)
                 (\<lambda>dm st5. Return (m, c, x, dm) (st5\<lparr>trace := []\<rparr>))))))
   = Return (VRef 1, VRef 3, VRef 2, VDict [(''limits'', VDict [(''max'', VInt 5)])])
       \<lparr>heap = [LoggedConfiguration ''app.limits'' [(''max'', VInt 5)] ''app.limits'',
                LoggedConfiguration ''app'' [(''limits'', VRef 0)] ''app'',
                LoggedConfiguration ''app.limits(copy)'' [(''max'', VInt 6)] ''app.limits(copy)'',
                LoggedConfiguration ''app(copy)'' [(''limits'', VRef 2)] ''app(copy)''],
        trace = []\<rparr>"
  by (simp add: store_defs wrap_defs LoggedConfiguration_copy_def copy_deepcopy_def deepcopy_body_def
      LoggedConfiguration_deepcopy_hook_def LoggedConfiguration_getitem_def
      LoggedConfiguration_setitem_def to_dict_def unwrap_body_def eval_nat_numeral)

subsection \<open>The wrapping function\<close>

text \<open>
  C4, as the code has it: whenever \<^verbatim>\<open>wrap_logged_config_value\<close>
  returns, the result is a new \<open>LoggedList\<close> named \<open>config_name\<close> if the
  value is a list or a tuple, a new \<open>LoggedSet\<close> if it is a set, a new
  \<open>LoggedConfiguration\<close> if it is a dict, and the value itself, with nothing
  changed, otherwise. The only exception it raises is \<open>TypeError\<close> (not
  hashable). On plain data, given fuel beyond the depth of the value, it
  returns when every set inside the value holds primitive values only, and
  raises \<open>TypeError\<close> when some set holds a list, tuple, set or dict.
\<close>

theorem wrap_logged_config_value_result:
  "(\<forall>r st'. wrap_logged_config_value n config_name v st = Return r st' \<longrightarrow>
      (case class_of st v of
         Some c \<Rightarrow> new_logged c config_name st st' r
       | None \<Rightarrow> r = v \<and> st' = st)) \<and>
   (\<forall>e st'. wrap_logged_config_value n config_name v st = Raise e st' \<longrightarrow> e = TypeError) \<and>
   (plain v \<and> depth v < n \<longrightarrow>
      (if wrappable v then \<exists>r st'. wrap_logged_config_value n config_name v st = Return r st'
       else \<exists>st'. wrap_logged_config_value n config_name v st = Raise TypeError st'))"
proof (intro conjI allI impI)
  fix r st'
  assume "wrap_logged_config_value n config_name v st = Return r st'"
  then show "case class_of st v of Some c \<Rightarrow> new_logged c config_name st st' r | None \<Rightarrow> r = v \<and> st' = st"
    by (rule wrap_Return_class)
next
  fix e st'
  assume "wrap_logged_config_value n config_name v st = Raise e st'"
  with only_TypeError_wrap [of n config_name v st] show "e = TypeError" by simp
next
  assume "plain v \<and> depth v < n"
  then show "if wrappable v then \<exists>r st'. wrap_logged_config_value n config_name v st = Return r st'
       else \<exists>st'. wrap_logged_config_value n config_name v st = Raise TypeError st'"
    using wrap_plain_returns [of v n config_name st] wrap_plain_raises [of v n config_name st] by simp
qed

text \<open>The theorem at the list \<^verbatim>\<open>[1]\<close>.\<close>

theorem wrap_logged_config_value_result_witness:
  "plain (VList [VInt 1]) \<and> depth (VList [VInt 1]) < 2 \<and> wrappable (VList [VInt 1]) \<and>
   (\<exists>r st'. wrap_logged_config_value 2 ''c'' (VList [VInt 1]) \<lparr>heap = [], trace = []\<rparr> = Return r st' \<and>
      new_logged Sequence ''c'' \<lparr>heap = [], trace = []\<rparr> st' r)"
  using wrap_logged_config_value_result [of 2 "''c''" "VList [VInt 1]" "\<lparr>heap = [], trace = []\<rparr>"]
  by (auto simp: class_of_def)

text \<open>
  C4 as stated fails: wrapping the set \<^verbatim>\<open>{(1, 2)}\<close> wraps the tuple
  into a \<open>LoggedList\<close>, which is not hashable, and the insertion into the
  new set raises \<open>TypeError\<close>.
\<close>

theorem wrap_logged_config_value_fails:
  "wrap_logged_config_value 3 ''s'' (VSet [VTuple [VInt 1, VInt 2]]) \<lparr>heap = [], trace = []\<rparr>
   = Raise TypeError \<lparr>heap = [LoggedList ''s[...]'' [VInt 1, VInt 2] ''s[...]''], trace = [Alloc 0]\<rparr>"
  by (simp add: store_defs wrap_defs eval_nat_numeral)

subsection \<open>Attribute access and key access\<close>

text \<open>
  C6, as the code has it: for a name that is neither one of the instance
  attributes \<^verbatim>\<open>_name\<close>, \<^verbatim>\<open>_data\<close>, \<^verbatim>\<open>_logger\<close> nor an
  attribute of the class, reading the attribute and reading the key return the
  same value when the key is in the store; when it is not, reading the
  attribute raises \<open>AttributeError\<close> and reading the key raises \<open>KeyError\<close>,
  two different errors.
\<close>

theorem attribute_get_and_key_get:
  assumes "lookup st self = Some (LoggedConfiguration name data logger)"
    and "attr \<notin> set [''_name'', ''_data'', ''_logger'']"
    and "attr \<notin> set LoggedConfiguration_class \<union> set inherited"
  shows "(\<forall>v. map_of data attr = Some v \<longrightarrow>
            LoggedConfiguration_getattribute inherited self attr st = Return (Field v) st \<and>
            LoggedConfiguration_getitem self attr st = Return v st) \<and>
         (map_of data attr = None \<longrightarrow>
            LoggedConfiguration_getattribute inherited self attr st = Raise AttributeError st \<and>
            LoggedConfiguration_getitem self attr st = Raise KeyError st) \<and>
         AttributeError \<noteq> KeyError"
  using assms
  by (auto simp: LoggedConfiguration_getattribute_def LoggedConfiguration_getitem_def
      LoggedConfiguration_getattr_def)

text \<open>
  The theorem at the mapping \<^verbatim>\<open>{"a": 1}\<close>, for the key \<^verbatim>\<open>a\<close>,
  which is present, and the key \<^verbatim>\<open>b\<close>, which is not.
\<close>

theorem attribute_get_and_key_get_witness:
  "LoggedConfiguration_getattribute [''keys''] 0 ''a'' \<lparr>heap = [LoggedConfiguration ''c'' [(''a'', VInt 1)] ''c''], trace = []\<rparr>
     = Return (Field (VInt 1)) \<lparr>heap = [LoggedConfiguration ''c'' [(''a'', VInt 1)] ''c''], trace = []\<rparr> \<and>
   LoggedConfiguration_getitem 0 ''a'' \<lparr>heap = [LoggedConfiguration ''c'' [(''a'', VInt 1)] ''c''], trace = []\<rparr>
     = Return (VInt 1) \<lparr>heap = [LoggedConfiguration ''c'' [(''a'', VInt 1)] ''c''], trace = []\<rparr> \<and>
   LoggedConfiguration_getattribute [''keys''] 0 ''b'' \<lparr>heap = [LoggedConfiguration ''c'' [(''a'', VInt 1)] ''c''], trace = []\<rparr>
     = Raise AttributeError \<lparr>heap = [LoggedConfiguration ''c'' [(''a'', VInt 1)] ''c''], trace = []\<rparr> \<and>
   LoggedConfiguration_getitem 0 ''b'' \<lparr>heap = [LoggedConfiguration ''c'' [(''a'', VInt 1)] ''c''], trace = []\<rparr>
     = Raise KeyError \<lparr>heap = [LoggedConfiguration ''c'' [(''a'', VInt 1)] ''c''], trace = []\<rparr>"
  using attribute_get_and_key_get [of "\<lparr>heap = [LoggedConfiguration ''c'' [(''a'', VInt 1)] ''c''], trace = []\<rparr>"
      0 "''c''" "[(''a'', VInt 1)]" "''c''" "''a''" "[''keys'']"]
    attribute_get_and_key_get [of "\<lparr>heap = [LoggedConfiguration ''c'' [(''a'', VInt 1)] ''c''], trace = []\<rparr>"
      0 "''c''" "[(''a'', VInt 1)]" "''c''" "''b''" "[''keys'']"]
  by (simp add: lookup_def LoggedConfiguration_class_def)

text \<open>
  C6 as stated fails for a key that is also an attribute of the instance or of
  its class: in the mapping built from \<^verbatim>\<open>{"_name": 1, "copy": 2}\<close> and
  named \<^verbatim>\<open>c\<close>, reading the keys gives 1 and 2, reading the attribute
  \<^verbatim>\<open>_name\<close> gives the name \<^verbatim>\<open>"c"\<close>, and reading the attribute
  \<^verbatim>\<open>copy\<close> gives the method.
\<close>

theorem attribute_get_differs_from_key_get:
  "\<exists>st. LoggedConfiguration_init 1 ''c'' [(''_name'', VInt 1), (''copy'', VInt 2)] \<lparr>heap = [], trace = []\<rparr>
          = Return (VRef 0) st \<and>
        LoggedConfiguration_getitem 0 ''_name'' st = Return (VInt 1) st \<and>
        LoggedConfiguration_getitem 0 ''copy'' st = Return (VInt 2) st \<and>
        (\<forall>inherited. LoggedConfiguration_getattribute inherited 0 ''_name'' st = Return (Field (VStr ''c'')) st) \<and>
        (\<forall>inherited. LoggedConfiguration_getattribute inherited 0 ''copy'' st = Return (Method ''copy'') st)"
  by (simp add: store_defs wrap_defs LoggedConfiguration_getitem_def LoggedConfiguration_getattribute_def
      LoggedConfiguration_class_def)

subsection \<open>Attribute assignment\<close>

text \<open>
  C10, as the code has it: assigning to \<^verbatim>\<open>_name\<close>, \<^verbatim>\<open>_logger\<close>
  or \<^verbatim>\<open>_data\<close> writes that instance attribute and emits no log record;
  for \<^verbatim>\<open>_name\<close> and \<^verbatim>\<open>_logger\<close> the keyed store stays as it
  was, and for \<^verbatim>\<open>_data\<close> the assigned dict becomes the keyed store, as
  it is. Assigning to any other name is the item-set operation: once its value
  is wrapped, it has emitted exactly one log record, the \<open>Setting\<close> record of
  the name, the key and the value, and the store holds the wrapped value under
  that key; on a wrappable plain value, with fuel beyond its depth, it returns.
\<close>

theorem attribute_set_reserved_or_item:
  assumes "lookup st self = Some (LoggedConfiguration name data logger)"
  shows
    "(\<exists>st'. LoggedConfiguration_setattr n self ''_name'' (VStr s) st = Modelled (Return VNone st') \<and>
        log_of st' = log_of st \<and> lookup st' self = Some (LoggedConfiguration s data logger)) \<and>
     (\<exists>st'. LoggedConfiguration_setattr n self ''_logger'' (VLogger c) st = Modelled (Return VNone st') \<and>
        log_of st' = log_of st \<and> lookup st' self = Some (LoggedConfiguration name data c)) \<and>
     (\<exists>st'. LoggedConfiguration_setattr n self ''_data'' (VDict d) st = Modelled (Return VNone st') \<and>
        log_of st' = log_of st \<and> lookup st' self = Some (LoggedConfiguration name d logger)) \<and>
     (attr \<notin> set [''_name'', ''_data'', ''_logger''] \<longrightarrow>
        LoggedConfiguration_setattr n self attr val st
          = Modelled (LoggedConfiguration_setitem n self attr val st) \<and>
        (\<forall>v st1. wrap_logged_config_value n (name @ ''.'' @ attr) val
                    (info logger Setting [VStr name, VStr attr, val] st) = Return v st1 \<longrightarrow>
           (\<exists>st'. LoggedConfiguration_setitem n self attr val st = Return VNone st' \<and>
              log_of st' = log_of st @ [Info logger Setting [VStr name, VStr attr, val]] \<and>
              lookup st' self = Some (LoggedConfiguration name (dict_set attr v data) logger) \<and>
              map_of (dict_set attr v data) attr = Some v)) \<and>
        (plain val \<and> depth val < n \<and> wrappable val \<longrightarrow>
           (\<exists>st'. LoggedConfiguration_setitem n self attr val st = Return VNone st')))"
proof (intro conjI impI allI)
  show "\<exists>st'. LoggedConfiguration_setattr n self ''_name'' (VStr s) st = Modelled (Return VNone st') \<and>
        log_of st' = log_of st \<and> lookup st' self = Some (LoggedConfiguration s data logger)"
    using assms by (simp add: LoggedConfiguration_setattr_def object_setattr_def lookup_store_same)
  show "\<exists>st'. LoggedConfiguration_setattr n self ''_logger'' (VLogger c) st = Modelled (Return VNone st') \<and>
        log_of st' = log_of st \<and> lookup st' self = Some (LoggedConfiguration name data c)"
    using assms by (simp add: LoggedConfiguration_setattr_def object_setattr_def lookup_store_same)
  show "\<exists>st'. LoggedConfiguration_setattr n self ''_data'' (VDict d) st = Modelled (Return VNone st') \<and>
        log_of st' = log_of st \<and> lookup st' self = Some (LoggedConfiguration name d logger)"
    using assms by (simp add: LoggedConfiguration_setattr_def object_setattr_def lookup_store_same)
next
  assume "attr \<notin> set [''_name'', ''_data'', ''_logger'']"
  then show "LoggedConfiguration_setattr n self attr val st
          = Modelled (LoggedConfiguration_setitem n self attr val st)"
    by (simp add: LoggedConfiguration_setattr_def)
next
  fix v st1
  assume "wrap_logged_config_value n (name @ ''.'' @ attr) val
            (info logger Setting [VStr name, VStr attr, val] st) = Return v st1"
  from LoggedConfiguration_setitem_effect [OF assms this]
  show "\<exists>st'. LoggedConfiguration_setitem n self attr val st = Return VNone st' \<and>
              log_of st' = log_of st @ [Info logger Setting [VStr name, VStr attr, val]] \<and>
              lookup st' self = Some (LoggedConfiguration name (dict_set attr v data) logger) \<and>
              map_of (dict_set attr v data) attr = Some v"
    by (simp add: map_of_dict_set)
next
  assume "plain val \<and> depth val < n \<and> wrappable val"
  then obtain v st1 where "wrap_logged_config_value n (name @ ''.'' @ attr) val
            (info logger Setting [VStr name, VStr attr, val] st) = Return v st1"
    using wrap_plain_returns by blast
  from LoggedConfiguration_setitem_effect [OF assms this]
  show "\<exists>st'. LoggedConfiguration_setitem n self attr val st = Return VNone st'"
    by blast
qed

text \<open>
  The theorem at the mapping \<^verbatim>\<open>{"a": 1}\<close> named \<^verbatim>\<open>c\<close>:
  \<^verbatim>\<open>m._name = "d"\<close> and \<^verbatim>\<open>m.b = 2\<close>.
\<close>

theorem attribute_set_reserved_or_item_witness:
  "(\<exists>st'. LoggedConfiguration_setattr 1 0 ''_name'' (VStr ''d'')
             \<lparr>heap = [LoggedConfiguration ''c'' [(''a'', VInt 1)] ''c''], trace = []\<rparr>
            = Modelled (Return VNone st') \<and>
          log_of st' = [] \<and> lookup st' 0 = Some (LoggedConfiguration ''d'' [(''a'', VInt 1)] ''c'')) \<and>
   (\<exists>st'. LoggedConfiguration_setattr 1 0 ''b'' (VInt 2)
             \<lparr>heap = [LoggedConfiguration ''c'' [(''a'', VInt 1)] ''c''], trace = []\<rparr>
            = Modelled (Return VNone st'))"
  using attribute_set_reserved_or_item
    [of "\<lparr>heap = [LoggedConfiguration ''c'' [(''a'', VInt 1)] ''c''], trace = []\<rparr>" 0
        "''c''" "[(''a'', VInt 1)]" "''c''" 1 "''d''" "''x''" "[]" "''b''" "VInt 2"]
  by (simp add: lookup_def log_of_def)

text \<open>
  C10 as stated fails for \<^verbatim>\<open>_data\<close>: \<^verbatim>\<open>m._data = {}\<close> on the
  mapping \<^verbatim>\<open>{"a": 1}\<close> leaves the keyed store empty.
\<close>

theorem attribute_set_data_replaces_store:
  "LoggedConfiguration_setattr 0 0 ''_data'' (VDict [])
      \<lparr>heap = [LoggedConfiguration ''c'' [(''a'', VInt 1)] ''c''], trace = []\<rparr>
   = Modelled (Return VNone \<lparr>heap = [LoggedConfiguration ''c'' [] ''c''], trace = [Write 0]\<rparr>)"
  by (simp add: LoggedConfiguration_setattr_def object_setattr_def store_defs)

subsection \<open>Logging of the mutating calls\<close>

text \<open>
  C8 (the part on \<^verbatim>\<open>LoggedSet.pop\<close>): \<^verbatim>\<open>s.pop()\<close> on a logged set
  that holds one element raises \<open>TypeError\<close> with no log record emitted and
  the set as it was. Every mutating method that is entered emits exactly one
  record first (lemma \<open>mutating_calls_log_once\<close>); \<^verbatim>\<open>pop\<close>, declared
  with a parameter the call does not give, is not entered.
\<close>

theorem LoggedSet_pop_emits_no_record:
  "\<exists>st'. call_LoggedSet_pop 0 [] \<lparr>heap = [LoggedSet ''s'' [VInt 1] ''s''], trace = []\<rparr>
           = Raise TypeError st' \<and>
         log_of st' = [] \<and> heap st' = [LoggedSet ''s'' [VInt 1] ''s'']"
  by (simp add: call_LoggedSet_pop_def log_of_def)

subsection \<open>Failed calls\<close>



text \<open>
  An index outside a \<^verbatim>\<open>ssize_t\<close>: on the logged list \<^verbatim>\<open>[1]\<close>, both
  \<^verbatim>\<open>l.pop(2**63)\<close> and \<^verbatim>\<open>l.insert(2**63, 2)\<close> raise
  \<open>OverflowError\<close> after they have logged, and the list is as it was.
\<close>

lemma index_outside_ssize_t_raises:
  "invoke (=) 2 0 (ListPop (VInt (2 ^ 63))) \<lparr>heap = [LoggedList ''l'' [VInt 1] ''l''], trace = []\<rparr>
     = Raise OverflowError
         \<lparr>heap = [LoggedList ''l'' [VInt 1] ''l''],
          trace = [Info ''l'' PoppingIndex [VStr ''l'', VInt (2 ^ 63)]]\<rparr> \<and>
   invoke (=) 2 0 (ListInsert (VInt (2 ^ 63)) (VInt 2)) \<lparr>heap = [LoggedList ''l'' [VInt 1] ''l''], trace = []\<rparr>
     = Raise OverflowError
         \<lparr>heap = [LoggedList ''l'' [VInt 1] ''l''],
          trace = [Info ''l'' Inserting [VStr ''l'', VInt 2, VInt (2 ^ 63)]]\<rparr>"
  by (simp add: store_defs wrap_defs LoggedList_pop_def LoggedList_insert_def list_pop_def
      list_insert_def as_ssize_t_def eval_nat_numeral)


subsection \<open>Flattening a constructed mapping\<close>




subsection \<open>The name of a copy\<close>

text \<open>
  C7, as the code has it: \<open>ob\<close> is the logged container stored at
  \<open>self\<close>, a mapping, a sequence or a set. Whenever \<^verbatim>\<open>copy.copy\<close> or
  \<^verbatim>\<open>copy.deepcopy\<close> returns on it, the result is a container of the
  same class that was not in the store before, its name and the name of its
  logger are the name of \<open>ob\<close> followed by \<^verbatim>\<open>(copy)\<close>, and \<open>ob\<close>
  is still stored at \<open>self\<close>. Both copies return, given fuel for the depth
  of the nesting, when the values stored under \<open>self\<close> are all wrapped,
  with primitive values only in the sets. \<^verbatim>\<open>LoggedConfiguration.copy\<close>
  calls the one or the other.
\<close>

theorem copies_are_renamed:
  assumes "lookup st self = Some ob"
  shows "(\<forall>r st'. copy_copy n self st = Return r st' \<or> copy_deepcopy n (VRef self) st = Return r st'
            \<longrightarrow> new_logged (class_of_obj ob) (name_of ob @ ''(copy)'') st st' r \<and>
                lookup st' self = Some ob) \<and>
         (\<forall>d. good d (heap st) (VRef self) \<and> d \<le> n
            \<longrightarrow> (\<exists>r st'. copy_copy n self st = Return r st') \<and>
                (\<exists>r st'. copy_deepcopy n (VRef self) st = Return r st'))"
proof (intro conjI allI impI)
  fix r and st' :: state
  assume "copy_copy n self st = Return r st' \<or> copy_deepcopy n (VRef self) st = Return r st'"
  then have "new_logged (class_of_obj ob) (name_of ob @ ''(copy)'') st st' r \<and> grows st st'"
    using copy_copy_Return [OF assms] copy_deepcopy_Return [OF assms] by blast
  then show "new_logged (class_of_obj ob) (name_of ob @ ''(copy)'') st st' r"
    and "lookup st' self = Some ob"
    using grows_lookup [OF _ assms] by blast+
next
  fix d
  assume g: "good d (heap st) (VRef self) \<and> d \<le> n"
  then show "\<exists>r st'. copy_copy n self st = Return r st'"
    using copy_copy_returns by blast
  from g show "\<exists>r st'. copy_deepcopy n (VRef self) st = Return r st'"
    using copy_deepcopy_returns by blast
qed

text \<open>
  The theorem at the mapping built from
  \<^verbatim>\<open>{"servers": ["a"], "tags": {1}}\<close> under the name \<^verbatim>\<open>app\<close>.
\<close>

theorem copies_are_renamed_witness:
  "lookup \<lparr>heap = [LoggedList ''app.servers'' [VStr ''a''] ''app.servers'',
                  LoggedSet ''app.tags'' [VInt 1] ''app.tags'',
                  LoggedConfiguration ''app'' [(''servers'', VRef 0), (''tags'', VRef 1)] ''app''],
          trace = []\<rparr> 2
     = Some (LoggedConfiguration ''app'' [(''servers'', VRef 0), (''tags'', VRef 1)] ''app'') \<and>
   good 3 [LoggedList ''app.servers'' [VStr ''a''] ''app.servers'',
           LoggedSet ''app.tags'' [VInt 1] ''app.tags'',
           LoggedConfiguration ''app'' [(''servers'', VRef 0), (''tags'', VRef 1)] ''app''] (VRef 2) \<and>
   (3::nat) \<le> 3 \<and>
   (\<exists>r st'. copy_copy 3 2
               \<lparr>heap = [LoggedList ''app.servers'' [VStr ''a''] ''app.servers'',
                        LoggedSet ''app.tags'' [VInt 1] ''app.tags'',
                        LoggedConfiguration ''app'' [(''servers'', VRef 0), (''tags'', VRef 1)] ''app''],
                trace = []\<rparr> = Return r st' \<and>
             new_logged Mapping ''app(copy)''
               \<lparr>heap = [LoggedList ''app.servers'' [VStr ''a''] ''app.servers'',
                        LoggedSet ''app.tags'' [VInt 1] ''app.tags'',
                        LoggedConfiguration ''app'' [(''servers'', VRef 0), (''tags'', VRef 1)] ''app''],
                trace = []\<rparr> st' r) \<and>
   (\<exists>r st'. copy_deepcopy 3 (VRef 2)
               \<lparr>heap = [LoggedList ''app.servers'' [VStr ''a''] ''app.servers'',
                        LoggedSet ''app.tags'' [VInt 1] ''app.tags'',
                        LoggedConfiguration ''app'' [(''servers'', VRef 0), (''tags'', VRef 1)] ''app''],
                trace = []\<rparr> = Return r st' \<and>
             new_logged Mapping ''app(copy)''
               \<lparr>heap = [LoggedList ''app.servers'' [VStr ''a''] ''app.servers'',
                        LoggedSet ''app.tags'' [VInt 1] ''app.tags'',
                        LoggedConfiguration ''app'' [(''servers'', VRef 0), (''tags'', VRef 1)] ''app''],
                trace = []\<rparr> st' r)"
proof -
  have l: "lookup \<lparr>heap = [LoggedList ''app.servers'' [VStr ''a''] ''app.servers'',
                  LoggedSet ''app.tags'' [VInt 1] ''app.tags'',
                  LoggedConfiguration ''app'' [(''servers'', VRef 0), (''tags'', VRef 1)] ''app''],
          trace = []\<rparr> 2
     = Some (LoggedConfiguration ''app'' [(''servers'', VRef 0), (''tags'', VRef 1)] ''app'')"
    by (simp add: lookup_def)
  have g: "good 3 (heap \<lparr>heap = [LoggedList ''app.servers'' [VStr ''a''] ''app.servers'',
           LoggedSet ''app.tags'' [VInt 1] ''app.tags'',
           LoggedConfiguration ''app'' [(''servers'', VRef 0), (''tags'', VRef 1)] ''app''],
          trace = []\<rparr>) (VRef 2)"
    by (simp add: eval_nat_numeral primitive_def)
  from copies_are_renamed [OF l, of 3] l g show ?thesis
    by (simp add: class_of_obj_def name_of_def) blast
qed

text \<open>
  C7 as stated fails on a set that holds a tuple: after
  \<^verbatim>\<open>s.update([(2, 3)])\<close> on the logged set \<^verbatim>\<open>{1}\<close>, both
  \<^verbatim>\<open>copy.copy(s)\<close> and \<^verbatim>\<open>copy.deepcopy(s)\<close> raise
  \<open>TypeError\<close>: the constructor of the copy wraps the tuple into a
  \<open>LoggedList\<close>, which cannot be hashed.
\<close>

theorem copy_of_set_holding_tuple_raises:
  "\<exists>st2. and_then (LoggedSet_init 3 ''s'' [VInt 1] \<lparr>heap = [], trace = []\<rparr>)
            (\<lambda>s st1. LoggedSet_update 0 (VList [VTuple [VInt 2, VInt 3]]) st1) = Return VNone st2 \<and>
         heap st2 = [LoggedSet ''s'' [VInt 1, VTuple [VInt 2, VInt 3]] ''s''] \<and>
         (\<exists>st3. copy_copy 3 0 st2 = Raise TypeError st3) \<and>
         (\<exists>st3. copy_deepcopy 3 (VRef 0) st2 = Raise TypeError st3)"
  by (simp add: store_defs wrap_defs LoggedSet_update_def iterate_def copy_copy_def copy_deepcopy_def
      LoggedSet_copy_hook_def deepcopy_body_def LoggedSet_deepcopy_hook_def eval_nat_numeral)

end
